theory Spec2Isabelle
  imports Main "HOL-Library.Word"
begin

unbundle bit_operations_syntax

section \<open>Machine types\<close>

text \<open>
  The sources are C++ for a 64-bit target: \<open>size_t\<close> is an unsigned 64-bit integer whose
  arithmetic wraps, \<open>uint8_t\<close> a byte, \<open>int\<close> a 32-bit two's complement integer (read
  with \<open>sint\<close>).
\<close>

type_synonym size_t = "64 word"
type_synonym uint8_t = "8 word"
type_synonym cint = "32 word"

section \<open>Collaborators of the image buffer\<close>

text \<open>
  \<open>Tile.h\<close>, \<open>Tileset.h\<close>, \<open>BigTile.h\<close>, \<open>Palette.h\<close> and \<open>Utils.h\<close> are not part
  of the sources at hand, so what \<open>ImageBuffer.cpp\<close> asks of them is taken as a parameter:
  \<^item> of a tile, the byte that \<open>tile.Attributes().getAttribute(TileAttributes::ATTR_PRIORITY)\<close>
    yields once stored in a \<open>uint8_t\<close>, and a reference that tells tiles apart;
  \<^item> a tileset is its lookup \<open>getTile\<close>, from a tile to the byte vector of its bitmap;
  \<^item> a block holds four tiles, read with \<open>getTile(0)\<close> .. \<open>getTile(3)\<close>;
  \<^item> a palette is its four channel readers \<open>getR\<close>, \<open>getG\<close>, \<open>getB\<close>, \<open>getA\<close>;
  \<^item> \<open>Debug\<close> is a sink of messages; the messages sent so far are kept next to the
    buffer so that reporting can be observed.
\<close>

record Tile =
  tile_ref :: nat
  attr_priority :: uint8_t

type_synonym Tileset = "Tile \<Rightarrow> uint8_t list"

datatype BigTile = BigTile Tile Tile Tile Tile

fun getTile :: "BigTile \<Rightarrow> nat \<Rightarrow> Tile" where
  "getTile (BigTile t0 t1 t2 t3) i =
     (if i = 0 then t0 else if i = 1 then t1 else if i = 2 then t2 else t3)"

record Palette =
  getR :: "uint8_t \<Rightarrow> uint8_t"
  getG :: "uint8_t \<Rightarrow> uint8_t"
  getB :: "uint8_t \<Rightarrow> uint8_t"
  getA :: "uint8_t \<Rightarrow> uint8_t"

datatype debug_msg =
    TileOutOfRange size_t size_t size_t size_t
  | BlockOutOfRange
  | PNGOpenFailed

section \<open>ImageBuffer\<close>

text \<open>
  The members of the class as \<open>ImageBuffer.cpp\<close> uses them. \<open>m_rgb\<close> and \<open>m_alpha\<close> are
  the scratch vectors that \<open>GetRGB\<close> and \<open>GetAlpha\<close> fill. \<open>debug_out\<close> is not a member:
  it is the list of messages handed to \<open>Debug\<close>, oldest first.
\<close>

record ImageBuffer =
  m_width :: size_t
  m_height :: size_t
  m_pixels :: "uint8_t list"
  m_priority :: "uint8_t list"
  m_rgb :: "uint8_t list"
  m_alpha :: "uint8_t list"
  debug_out :: "debug_msg list"

definition Debug :: "debug_msg \<Rightarrow> ImageBuffer \<Rightarrow> ImageBuffer" where
  "Debug msg s = s\<lparr>debug_out := debug_out s @ [msg]\<rparr>"

text \<open>\<open>ImageBuffer::ImageBuffer()\<close> and \<open>ImageBuffer::ImageBuffer(size_t, size_t)\<close>.\<close>

definition ImageBuffer_default :: ImageBuffer where
  "ImageBuffer_default =
     \<lparr>m_width = 0, m_height = 0, m_pixels = [], m_priority = [],
      m_rgb = [], m_alpha = [], debug_out = []\<rparr>"

definition ImageBuffer_sized :: "size_t \<Rightarrow> size_t \<Rightarrow> ImageBuffer" where
  "ImageBuffer_sized width height =
     \<lparr>m_width = width, m_height = height,
      m_pixels = replicate (unat (width * height)) 0,
      m_priority = replicate (unat (width * height)) 0,
      m_rgb = [], m_alpha = [], debug_out = []\<rparr>"

text \<open>\<open>Clear\<close>: \<open>std::fill\<close> over both vectors.\<close>

definition Clear :: "ImageBuffer \<Rightarrow> ImageBuffer" where
  "Clear s = s\<lparr>m_pixels := map (\<lambda>_. 0) (m_pixels s),
               m_priority := map (\<lambda>_. 0) (m_priority s)\<rparr>"

text \<open>\<open>Resize\<close>: both vectors are assigned \<open>width * height\<close> zero bytes, the product
  being the \<open>size_t\<close> one.\<close>

definition Resize :: "size_t \<Rightarrow> size_t \<Rightarrow> ImageBuffer \<Rightarrow> ImageBuffer" where
  "Resize width height s =
     s\<lparr>m_width := width, m_height := height,
       m_pixels := replicate (unat (width * height)) 0,
       m_priority := replicate (unat (width * height)) 0\<rparr>"

text \<open>
  The loop of \<open>InsertTile\<close>. An iterator is modelled by its offset from \<open>begin()\<close>, a
  \<open>size_t\<close>; \<open>row_it\<close> and \<open>pri_row_it\<close> are the offsets of the first row in the pixel
  and in the priority vector, \<open>dest_it\<close> and \<open>pri_dest_it\<close> the running offsets, \<open>i\<close> the
  loop counter. Writing through an iterator that is not inside its vector is undefined
  behaviour: the model stops with \<open>None\<close>. (\<open>pri_dest_it\<close> starts as a copy of \<open>row_it\<close>
  and is reset at \<open>i = 0\<close> before its first use.)
\<close>

fun InsertTile_loop ::
  "size_t \<Rightarrow> size_t \<Rightarrow> size_t \<Rightarrow> uint8_t \<Rightarrow> uint8_t \<Rightarrow> uint8_t list \<Rightarrow> nat \<Rightarrow>
   size_t \<Rightarrow> size_t \<Rightarrow> ImageBuffer \<Rightarrow> ImageBuffer option" where
  "InsertTile_loop w row_it pri_row_it pal_bits priority [] i dest_it pri_dest_it s = Some s"
| "InsertTile_loop w row_it pri_row_it pal_bits priority (b # bits) i dest_it pri_dest_it s =
     (let dest = (if i mod 8 = 0 then row_it + w * of_nat (i div 8) else dest_it);
          pri_dest = (if i mod 8 = 0 then pri_row_it + w * of_nat (i div 8) else pri_dest_it)
      in if b \<noteq> 0 then
           (if unat dest < length (m_pixels s) \<and> unat pri_dest < length (m_priority s)
            then InsertTile_loop w row_it pri_row_it pal_bits priority bits (Suc i)
                   (dest + 1) (pri_dest + 1)
                   (s\<lparr>m_pixels := (m_pixels s)[unat dest := b OR pal_bits],
                      m_priority := (m_priority s)[unat pri_dest := priority]\<rparr>)
            else None)
         else InsertTile_loop w row_it pri_row_it pal_bits priority bits (Suc i)
                (dest + 1) (pri_dest + 1) s)"

text \<open>
  The offset that \<open>dest_it\<close> (from \<open>row_it\<close>) or \<open>pri_dest_it\<close> (from \<open>pri_row_it\<close>)
  holds when the loop of \<open>InsertTile\<close> looks at \<open>tile_bits[i]\<close>: row \<open>i / 8\<close> of the
  tile, column \<open>i % 8\<close>.
\<close>

definition dest_offset :: "size_t \<Rightarrow> size_t \<Rightarrow> nat \<Rightarrow> size_t" where
  "dest_offset w row_it i = row_it + w * of_nat (i div 8) + of_nat (i mod 8)"

definition InsertTile ::
  "size_t \<Rightarrow> size_t \<Rightarrow> uint8_t \<Rightarrow> Tile \<Rightarrow> Tileset \<Rightarrow> ImageBuffer \<Rightarrow> ImageBuffer option" where
  "InsertTile x y palette_index tile tileset s =
     (let max_x = x + 7; max_y = y + 7
      in if max_x \<ge> m_width s \<or> max_y \<ge> m_height s
         then Some (Debug (TileOutOfRange x y (m_width s) (m_height s)) s)
         else
           let tile_bits = tileset tile;
               pal_bits = push_bit 4 palette_index;
               begin_offset = y * m_width s + x;
               priority = attr_priority tile
           in InsertTile_loop (m_width s) begin_offset begin_offset pal_bits priority
                tile_bits 0 begin_offset begin_offset s)"

text \<open>\<open>InsertBlock\<close>: the guard on the flat index, then the four tiles in order.\<close>

definition InsertBlock ::
  "size_t \<Rightarrow> size_t \<Rightarrow> uint8_t \<Rightarrow> BigTile \<Rightarrow> Tileset \<Rightarrow> ImageBuffer \<Rightarrow> ImageBuffer option" where
  "InsertBlock x y palette_index block tileset s =
     (if (y + 7) * m_width s + x + 7 < of_nat (length (m_pixels s))
      then Option.bind (InsertTile x y palette_index (getTile block 0) tileset s) (\<lambda>s1.
           Option.bind (InsertTile (x + 8) y palette_index (getTile block 1) tileset s1) (\<lambda>s2.
           Option.bind (InsertTile x (y + 8) palette_index (getTile block 2) tileset s2) (\<lambda>s3.
           InsertTile (x + 8) (y + 8) palette_index (getTile block 3) tileset s3)))
      else Some (Debug BlockOutOfRange s))"

text \<open>
  What the properties of \<open>InsertBlock\<close> compare: the observable image (dimensions and both
  rasters), and the four calls of \<open>InsertTile\<close> made one after the other by hand, at
  \<open>(x, y)\<close>, \<open>(x + 8, y)\<close>, \<open>(x, y + 8)\<close>, \<open>(x + 8, y + 8)\<close> with the block's tiles 0 to 3.
\<close>

definition rasters :: "ImageBuffer \<Rightarrow> size_t \<times> size_t \<times> uint8_t list \<times> uint8_t list" where
  "rasters s = (m_width s, m_height s, m_pixels s, m_priority s)"

definition four_InsertTile_calls ::
  "size_t \<Rightarrow> size_t \<Rightarrow> uint8_t \<Rightarrow> BigTile \<Rightarrow> Tileset \<Rightarrow> ImageBuffer \<Rightarrow> ImageBuffer option" where
  "four_InsertTile_calls x y palette_index block tileset s =
     Option.bind (InsertTile x y palette_index (getTile block 0) tileset s) (\<lambda>s1.
     Option.bind (InsertTile (x + 8) y palette_index (getTile block 1) tileset s1) (\<lambda>s2.
     Option.bind (InsertTile x (y + 8) palette_index (getTile block 2) tileset s2) (\<lambda>s3.
     InsertTile (x + 8) (y + 8) palette_index (getTile block 3) tileset s3)))"

text \<open>
  Geometry of a tile in a raster of width \<open>w\<close> and height \<open>h\<close>, in natural numbers: the 8 by
  8 footprint at \<open>(x, y)\<close> lies inside, the raster index of the pixel that source byte \<open>i\<close> of
  the bitmap belongs to, and the origins that \<open>InsertBlock\<close> hands to its calls 0 to 3.
\<close>

definition tile_fits :: "size_t \<Rightarrow> size_t \<Rightarrow> size_t \<Rightarrow> size_t \<Rightarrow> bool" where
  "tile_fits w h x y \<longleftrightarrow> unat x + 7 < unat w \<and> unat y + 7 < unat h"

definition tile_dest :: "size_t \<Rightarrow> size_t \<Rightarrow> size_t \<Rightarrow> nat \<Rightarrow> nat" where
  "tile_dest w x y i = (unat y + i div 8) * unat w + unat x + i mod 8"

definition quadrant_x :: "size_t \<Rightarrow> nat \<Rightarrow> size_t" where
  "quadrant_x x q = (if q = 1 \<or> q = 3 then x + 8 else x)"

definition quadrant_y :: "size_t \<Rightarrow> nat \<Rightarrow> size_t" where
  "quadrant_y y q = (if q = 2 \<or> q = 3 then y + 8 else y)"

text \<open>
  \<open>std::vector::resize(n)\<close> on a byte vector: cut to \<open>n\<close> elements, or filled up with
  zero bytes.
\<close>

definition resize :: "nat \<Rightarrow> uint8_t list \<Rightarrow> uint8_t list" where
  "resize n xs = take n xs @ replicate (n - length xs) 0"

text \<open>
  The loop of \<open>GetRGB\<close>: \<open>it\<close> is the position of the output iterator in \<open>m_rgb\<close>.
  \<open>pals[pixel >> 4]\<close> outside the palette vector, and a write outside \<open>m_rgb\<close>, are
  undefined behaviour (\<open>None\<close>).
\<close>

fun GetRGB_loop :: "Palette list \<Rightarrow> uint8_t list \<Rightarrow> nat \<Rightarrow> uint8_t list \<Rightarrow> uint8_t list option" where
  "GetRGB_loop pals [] it rgb = Some rgb"
| "GetRGB_loop pals (pixel # rest) it rgb =
     (if unat (drop_bit 4 pixel) < length pals \<and> it + 2 < length rgb
      then GetRGB_loop pals rest (it + 3)
             (rgb[it := getR (pals ! unat (drop_bit 4 pixel)) (pixel AND 0x0F),
                  it + 1 := getG (pals ! unat (drop_bit 4 pixel)) (pixel AND 0x0F),
                  it + 2 := getB (pals ! unat (drop_bit 4 pixel)) (pixel AND 0x0F)])
      else None)"

text \<open>\<open>GetRGB\<close> returns a reference to \<open>m_rgb\<close>: the model returns its contents and
  the buffer with the scratch vector updated.\<close>

definition GetRGB :: "Palette list \<Rightarrow> ImageBuffer \<Rightarrow> (uint8_t list \<times> ImageBuffer) option" where
  "GetRGB pals s =
     (case GetRGB_loop pals (m_pixels s) 0
             (resize (unat (m_width s * m_height s * 3)) (m_rgb s)) of
        None \<Rightarrow> None
      | Some rgb \<Rightarrow> Some (rgb, s\<lparr>m_rgb := rgb\<rparr>))"

text \<open>
  The loop of \<open>GetAlpha\<close>: \<open>pri\<close> is what the priority iterator has still to read,
  \<open>it\<close> the position of the output iterator in \<open>m_alpha\<close>. \<open>std::min\<close> on two
  \<open>uint8_t\<close> is the unsigned minimum.
\<close>

fun GetAlpha_loop ::
  "Palette list \<Rightarrow> uint8_t \<Rightarrow> uint8_t \<Rightarrow> uint8_t list \<Rightarrow> uint8_t list \<Rightarrow> nat \<Rightarrow>
   uint8_t list \<Rightarrow> uint8_t list option" where
  "GetAlpha_loop pals low_pri_max_opacity high_pri_max_opacity [] pri it alpha = Some alpha"
| "GetAlpha_loop pals low_pri_max_opacity high_pri_max_opacity (pixel # rest) pri it alpha =
     (case pri of
        [] \<Rightarrow> None
      | p # pri' \<Rightarrow>
          if unat (drop_bit 4 pixel) < length pals \<and> it < length alpha
          then
            let a = getA (pals ! unat (drop_bit 4 pixel)) (pixel AND 0x0F);
                max_opacity = (if p \<noteq> 0 then high_pri_max_opacity else low_pri_max_opacity)
            in GetAlpha_loop pals low_pri_max_opacity high_pri_max_opacity rest pri' (Suc it)
                 (alpha[it := min max_opacity a])
          else None)"

definition GetAlpha ::
  "Palette list \<Rightarrow> uint8_t \<Rightarrow> uint8_t \<Rightarrow> ImageBuffer \<Rightarrow> (uint8_t list \<times> ImageBuffer) option" where
  "GetAlpha pals low_pri_max_opacity high_pri_max_opacity s =
     (case GetAlpha_loop pals low_pri_max_opacity high_pri_max_opacity (m_pixels s)
             (m_priority s) 0 (resize (unat (m_width s * m_height s)) (m_alpha s)) of
        None \<Rightarrow> None
      | Some alpha \<Rightarrow> Some (alpha, s\<lparr>m_alpha := alpha\<rparr>))"

text \<open>
  \<open>WritePNG\<close> talks to libpng and to the file system. What they answer is a parameter:
  libpng raises an error (the \<open>setjmp\<close> handler calls \<open>abort()\<close>, no return), \<open>fopen\<close>
  fails, or the file is written. The bytes of the file are not modelled. More than 16
  palettes overrun the 256-entry tables on the stack.
\<close>

datatype png_outcome = PngAbort | FopenFails | PngWritten

definition WritePNG ::
  "png_outcome \<Rightarrow> string \<Rightarrow> Palette list \<Rightarrow> ImageBuffer \<Rightarrow> (bool \<times> ImageBuffer) option" where
  "WritePNG outcome filename palettes s =
     (if 16 < length palettes then None
      else case outcome of
             PngAbort \<Rightarrow> None
           | FopenFails \<Rightarrow> Some (False, Debug PNGOpenFailed s)
           | PngWritten \<Rightarrow> Some (True, s))"

text \<open>
  A call of a public member function, and a sequence of calls on one buffer. A call with
  undefined behaviour, or one that aborts, ends the sequence with \<open>None\<close>.
\<close>

datatype operation =
    OpClear
  | OpResize size_t size_t
  | OpInsertTile size_t size_t uint8_t Tile Tileset
  | OpInsertBlock size_t size_t uint8_t BigTile Tileset
  | OpGetRGB "Palette list"
  | OpGetAlpha "Palette list" uint8_t uint8_t
  | OpWritePNG png_outcome string "Palette list"

fun perform :: "operation \<Rightarrow> ImageBuffer \<Rightarrow> ImageBuffer option" where
  "perform OpClear s = Some (Clear s)"
| "perform (OpResize width height) s = Some (Resize width height s)"
| "perform (OpInsertTile x y palette_index tile tileset) s =
     InsertTile x y palette_index tile tileset s"
| "perform (OpInsertBlock x y palette_index block tileset) s =
     InsertBlock x y palette_index block tileset s"
| "perform (OpGetRGB pals) s = map_option snd (GetRGB pals s)"
| "perform (OpGetAlpha pals lo hi) s = map_option snd (GetAlpha pals lo hi s)"
| "perform (OpWritePNG outcome filename pals) s = map_option snd (WritePNG outcome filename pals s)"

fun perform_all :: "operation list \<Rightarrow> ImageBuffer \<Rightarrow> ImageBuffer option" where
  "perform_all [] s = Some s"
| "perform_all (op # ops) s = Option.bind (perform op s) (perform_all ops)"

text \<open>
  A bitmap of 4-bit values, and a call that only looks up such bitmaps in its tileset.
\<close>

definition four_bit_bitmap :: "uint8_t list \<Rightarrow> bool" where
  "four_bit_bitmap bits \<longleftrightarrow> list_all (\<lambda>b. b \<le> 15) bits"

fun four_bit_tiles :: "operation \<Rightarrow> bool" where
  "four_bit_tiles (OpInsertTile x y palette_index tile tileset) = four_bit_bitmap (tileset tile)"
| "four_bit_tiles (OpInsertBlock x y palette_index block tileset) =
     (four_bit_bitmap (tileset (getTile block 0)) \<and> four_bit_bitmap (tileset (getTile block 1)) \<and>
      four_bit_bitmap (tileset (getTile block 2)) \<and> four_bit_bitmap (tileset (getTile block 3)))"
| "four_bit_tiles _ = True"

text \<open>
  Transparent pixels carry no priority: wherever the low nibble of the pixel byte is zero
  (in particular wherever the byte is zero) the priority byte is zero.
\<close>

definition transparent_is_low :: "ImageBuffer \<Rightarrow> bool" where
  "transparent_is_low s \<longleftrightarrow>
     length (m_priority s) = length (m_pixels s) \<and>
     (\<forall>i<length (m_pixels s). m_pixels s ! i AND 0x0F = 0 \<longrightarrow> m_priority s ! i = 0)"

text \<open>The two rasters hold one byte per pixel of a \<open>m_width\<close> by \<open>m_height\<close> image,
  counted with the \<open>size_t\<close> product that the constructor and \<open>Resize\<close> form.\<close>

definition rasters_sized :: "ImageBuffer \<Rightarrow> bool" where
  "rasters_sized s \<longleftrightarrow>
     length (m_pixels s) = unat (m_width s * m_height s) \<and>
     length (m_priority s) = unat (m_width s * m_height s)"

section \<open>BlockmapIsometric\<close>

text \<open>
  \<open>BlockmapIsometric.h\<close> and the base class \<open>Blockmap2D\<close> are not part of the sources at
  hand. The getters are typed after the constructor's parameters (\<open>size_t\<close>), the
  fields of \<open>TilePoint\<close> and \<open>TilePoint3D\<close> after the \<open>static_cast<size_t>\<close> that
  \<open>XYToTilePoint\<close> stores in them, \<open>wxPoint\<close> has two \<open>int\<close>s. The class constants
  \<open>TILEWIDTH\<close> and \<open>TILEHEIGHT\<close> are parameters, kept with the getters.
  With a \<open>size_t\<close> operand every sum, product and quotient below is the unsigned 64-bit
  one; an \<open>int\<close> entering it is sign-extended (\<open>scast\<close>), a result stored in an \<open>int\<close>
  is cut to its low 32 bits (\<open>ucast\<close>). The two \<open>int\<close> operations, \<open>ygrid + xgrid\<close> and
  \<open>ygrid - xgrid\<close>, wrap in the model; in C++ their overflow is undefined, and the
  round-trip property below is stated where they do not overflow.
\<close>

record BlockmapIsometric =
  GetWidth :: size_t
  GetHeight :: size_t
  GetLeft :: size_t
  GetTop :: size_t
  TILEWIDTH :: size_t
  TILEHEIGHT :: size_t

record wxPoint =
  wx_x :: cint
  wx_y :: cint

record TilePoint =
  tp_x :: size_t
  tp_y :: size_t

record TilePoint3D =
  tp3_x :: size_t
  tp3_y :: size_t
  tp3_z :: size_t

text \<open>\<open>XYToTilePoint\<close>; a division by a zero constant has no result.\<close>

definition XYToTilePoint :: "BlockmapIsometric \<Rightarrow> wxPoint \<Rightarrow> TilePoint option" where
  "XYToTilePoint b point =
     (if TILEWIDTH b = 0 \<or> TILEHEIGHT b = 0 then None
      else
        let xgrid :: cint = ucast ((scast (wx_x point) - GetLeft b) div TILEWIDTH b);
            ygrid :: cint = ucast ((2 * (scast (wx_y point) - GetTop b)) div TILEHEIGHT b)
        in Some \<lparr>tp_x = (scast (ygrid + xgrid) - GetHeight b + 1) div 2,
                 tp_y = (scast (ygrid - xgrid) + GetHeight b - 1) div 2\<rparr>)"

definition ToXYPoint :: "BlockmapIsometric \<Rightarrow> TilePoint \<Rightarrow> wxPoint" where
  "ToXYPoint b point =
     (let ix :: cint = ucast ((tp_x point - tp_y point + (GetHeight b - 1)) * TILEWIDTH b + GetLeft b);
          iy :: cint = ucast ((tp_x point + tp_y point) * TILEHEIGHT b div 2 + GetTop b)
      in \<lparr>wx_x = ix, wx_y = iy\<rparr>)"

definition ToXYPoint3D :: "BlockmapIsometric \<Rightarrow> TilePoint3D \<Rightarrow> wxPoint" where
  "ToXYPoint3D b point =
     (let ix :: cint = ucast ((tp3_x point - tp3_y point + (GetHeight b - 1)) * TILEWIDTH b + GetLeft b);
          iy :: cint = ucast ((tp3_x point + tp3_y point - tp3_z point * 2) * TILEHEIGHT b div 2 + GetTop b)
      in \<lparr>wx_x = ix, wx_y = iy\<rparr>)"

text \<open>
  The screen footprint of a tile: the \<open>TILEWIDTH\<close> by \<open>TILEHEIGHT\<close> pixel rectangle whose
  top-left corner is the tile's screen point.
\<close>

definition in_footprint :: "BlockmapIsometric \<Rightarrow> TilePoint \<Rightarrow> wxPoint \<Rightarrow> bool" where
  "in_footprint b t p \<longleftrightarrow>
     sint (wx_x (ToXYPoint b t)) \<le> sint (wx_x p) \<and>
     sint (wx_x p) < sint (wx_x (ToXYPoint b t)) + uint (TILEWIDTH b) \<and>
     sint (wx_y (ToXYPoint b t)) \<le> sint (wx_y p) \<and>
     sint (wx_y p) < sint (wx_y (ToXYPoint b t)) + uint (TILEHEIGHT b)"

section \<open>Example data\<close>

text \<open>A tile with the priority attribute set, a tileset whose every bitmap is 64 bytes of
  colour 1, a tileset whose every bitmap is transparent but for colour 5 at the right end
  of its first row, and a block of four tiles.\<close>

definition high_tile :: Tile where
  "high_tile = \<lparr>tile_ref = 0, attr_priority = 1\<rparr>"

definition solid_tileset :: Tileset where
  "solid_tileset t = replicate 64 1"

definition corner_tileset :: Tileset where
  "corner_tileset t = replicate 7 0 @ 5 # replicate 56 0"

definition solid_block :: BigTile where
  "solid_block = BigTile high_tile high_tile high_tile high_tile"

text \<open>A palette whose colour \<open>i\<close> is the grey \<open>(i, i, i)\<close>, fully opaque, and an 8 by 8
  buffer on which one tile has been drawn with palette row 2.\<close>

definition grey_palette :: Palette where
  "grey_palette = \<lparr>getR = (\<lambda>i. i), getG = (\<lambda>i. i), getB = (\<lambda>i. i), getA = (\<lambda>i. 255)\<rparr>"

definition drawn_buffer :: ImageBuffer where
  "drawn_buffer = the (InsertTile 0 0 2 high_tile solid_tileset (ImageBuffer_sized 8 8))"

text \<open>A 10 by 10 grid of 16 by 16 pixel tiles with its origin at the top-left corner of the
  screen, and the tile \<open>(3, 4)\<close>.\<close>

definition grid_10 :: BlockmapIsometric where
  "grid_10 = \<lparr>GetWidth = 10, GetHeight = 10, GetLeft = 0, GetTop = 0,
              TILEWIDTH = 16, TILEHEIGHT = 16\<rparr>"

definition tile_3_4 :: TilePoint where
  "tile_3_4 = \<lparr>tp_x = 3, tp_y = 4\<rparr>"

section \<open>Properties\<close>

subsection \<open>Basic facts\<close>

lemma Debug_fields [simp]:
  "m_width (Debug msg s) = m_width s" "m_height (Debug msg s) = m_height s"
  "m_pixels (Debug msg s) = m_pixels s" "m_priority (Debug msg s) = m_priority s"
  "debug_out (Debug msg s) = debug_out s @ [msg]"
  by (simp_all add: Debug_def)

lemma rasters_Debug [simp]: "rasters (Debug msg s) = rasters s"
  by (simp add: rasters_def)

lemma InsertTile_skip:
  "m_width s \<le> x + 7 \<or> m_height s \<le> y + 7 \<Longrightarrow>
   InsertTile x y palette_index tile tileset s =
     Some (Debug (TileOutOfRange x y (m_width s) (m_height s)) s)"
  by (auto simp: InsertTile_def Let_def)

lemma unat_mult_nowrap:
  fixes a b :: size_t
  shows "unat a * unat b < 2 ^ 64 \<Longrightarrow> unat (a * b) = unat a * unat b"
  using unat_mult_lem [of a b] by simp

lemma length_resize [simp]: "length (resize n xs) = n"
  by (simp add: resize_def)

lemma ucast_wi_down: "(ucast (word_of_int k :: size_t) :: cint) = word_of_int k"
  by (rule ucast_down_wi) (simp add: is_down)

lemma drawn_buffer_value:
  "drawn_buffer = \<lparr>m_width = 8, m_height = 8, m_pixels = replicate 64 33,
     m_priority = replicate 64 1, m_rgb = [], m_alpha = [], debug_out = []\<rparr>"
  by code_simp

subsection \<open>Out-of-range tiles\<close>

text \<open>As long as \<open>x + 7\<close> and \<open>y + 7\<close> do not wrap, a tile that is out of range in
  integers is not drawn: nothing of the buffer changes, the call returns normally and one
  message goes to \<open>Debug\<close>.\<close>

lemma InsertTile_out_of_range_nowrap:
  assumes "unat x + 7 < 2 ^ 64" and "unat y + 7 < 2 ^ 64"
    and "unat (m_width s) \<le> unat x + 7 \<or> unat (m_height s) \<le> unat y + 7"
  shows "InsertTile x y palette_index tile tileset s =
     Some (Debug (TileOutOfRange x y (m_width s) (m_height s)) s)"
proof -
  from assms(1,2) have "unat (x + 7) = unat x + 7" "unat (y + 7) = unat y + 7"
    by (simp_all add: unat_word_ariths)
  with assms(3) have "m_width s \<le> x + 7 \<or> m_height s \<le> y + 7"
    by (simp add: word_le_nat_alt)
  then show ?thesis
    by (rule InsertTile_skip)
qed

text \<open>C4 fails where the sum wraps. The code forms \<open>max_x = x + 7\<close> in \<open>size_t\<close>, so for the
  last seven values of \<open>x\<close> the test \<open>max_x >= m_width\<close> sees a small number. At
  \<open>x = SIZE_MAX - 6\<close> (that is \<open>- 7\<close>), \<open>y = 0\<close> on an 8 by 8 buffer the tile is out of range
  in integers (\<open>W \<le> x + 7\<close>), yet \<open>max_x\<close> is 0, the check passes and the loop runs from
  \<open>begin() - 7\<close>: with a bitmap whose only colour is byte 7, pixel 0 becomes
  \<open>(2 << 4) | 5 = 37\<close> with priority 1 and nothing is reported; with a solid bitmap the
  first write is outside the vector.\<close>

theorem InsertTile_wrapped_range_check:
  "(- 7 :: size_t) = 18446744073709551609 \<and>
   unat (m_width (ImageBuffer_sized 8 8)) \<le> unat (- 7 :: size_t) + 7 \<and>
   InsertTile (- 7) 0 2 high_tile corner_tileset (ImageBuffer_sized 8 8) =
     Some \<lparr>m_width = 8, m_height = 8, m_pixels = 37 # replicate 63 0,
           m_priority = 1 # replicate 63 0, m_rgb = [], m_alpha = [], debug_out = []\<rparr> \<and>
   InsertTile (- 7) 0 2 high_tile solid_tileset (ImageBuffer_sized 8 8) = None"
proof -
  have wrapped: "(- 7 :: size_t) = 18446744073709551609"
    by simp
  have outside: "unat (m_width (ImageBuffer_sized 8 8)) \<le> unat (- 7 :: size_t) + 7"
    by (simp add: ImageBuffer_sized_def)
  have drawn: "InsertTile (- 7) 0 2 high_tile corner_tileset (ImageBuffer_sized 8 8) =
     Some \<lparr>m_width = 8, m_height = 8, m_pixels = 37 # replicate 63 0,
           m_priority = 1 # replicate 63 0, m_rgb = [], m_alpha = [], debug_out = []\<rparr>"
    by code_simp
  have bits: "solid_tileset high_tile = 1 # replicate 63 1"
    unfolding solid_tileset_def by (simp add: replicate_Suc [symmetric] del: replicate_Suc)
  have far: "\<not> unat (- 7 :: size_t) < 64"
    by simp
  have undefined_write:
    "InsertTile (- 7) 0 2 high_tile solid_tileset (ImageBuffer_sized 8 8) = None"
    using far by (simp add: InsertTile_def bits ImageBuffer_sized_def Let_def del: replicate_Suc)
  from wrapped outside drawn undefined_write show ?thesis
    by (intro conjI)
qed

subsection \<open>The rasters keep their size\<close>

lemma InsertTile_loop_shape:
  "InsertTile_loop w row_it pri_row_it pal_bits priority bits i dest_it pri_dest_it s = Some s' \<Longrightarrow>
   m_width s' = m_width s \<and> m_height s' = m_height s \<and>
   length (m_pixels s') = length (m_pixels s) \<and>
   length (m_priority s') = length (m_priority s) \<and>
   m_rgb s' = m_rgb s \<and> m_alpha s' = m_alpha s \<and> debug_out s' = debug_out s"
proof (induction bits arbitrary: i dest_it pri_dest_it s)
  case Nil
  then show ?case by simp
next
  case (Cons b bits)
  let ?d = "if i mod 8 = 0 then row_it + w * of_nat (i div 8) else dest_it"
  let ?p = "if i mod 8 = 0 then pri_row_it + w * of_nat (i div 8) else pri_dest_it"
  show ?case
  proof (cases "b = 0")
    case True
    with Cons.prems
    have "InsertTile_loop w row_it pri_row_it pal_bits priority bits (Suc i) (?d + 1) (?p + 1) s
          = Some s'"
      by (simp add: Let_def)
    from Cons.IH [OF this] show ?thesis .
  next
    case False
    with Cons.prems
    have "InsertTile_loop w row_it pri_row_it pal_bits priority bits (Suc i) (?d + 1) (?p + 1)
            (s\<lparr>m_pixels := (m_pixels s)[unat ?d := b OR pal_bits],
               m_priority := (m_priority s)[unat ?p := priority]\<rparr>) = Some s'"
      by (simp add: Let_def split: if_splits)
    from Cons.IH [OF this] show ?thesis by simp
  qed
qed

lemma InsertTile_shape:
  "InsertTile x y palette_index tile tileset s = Some s' \<Longrightarrow>
   m_width s' = m_width s \<and> m_height s' = m_height s \<and>
   length (m_pixels s') = length (m_pixels s) \<and>
   length (m_priority s') = length (m_priority s)"
  by (auto simp: InsertTile_def Let_def Debug_def split: if_splits dest: InsertTile_loop_shape)

lemma InsertBlock_shape:
  "InsertBlock x y palette_index block tileset s = Some s' \<Longrightarrow>
   m_width s' = m_width s \<and> m_height s' = m_height s \<and>
   length (m_pixels s') = length (m_pixels s) \<and>
   length (m_priority s') = length (m_priority s)"
  by (auto simp: InsertBlock_def Debug_def split: if_splits Option.bind_splits
      dest!: InsertTile_shape)

lemma GetRGB_shape:
  "GetRGB pals s = Some (rgb, s') \<Longrightarrow>
   m_width s' = m_width s \<and> m_height s' = m_height s \<and>
   m_pixels s' = m_pixels s \<and> m_priority s' = m_priority s"
  by (auto simp: GetRGB_def split: option.splits)

lemma GetAlpha_shape:
  "GetAlpha pals lo hi s = Some (alpha, s') \<Longrightarrow>
   m_width s' = m_width s \<and> m_height s' = m_height s \<and>
   m_pixels s' = m_pixels s \<and> m_priority s' = m_priority s"
  by (auto simp: GetAlpha_def split: option.splits)

lemma WritePNG_shape:
  "WritePNG outcome filename pals s = Some (ok, s') \<Longrightarrow>
   m_width s' = m_width s \<and> m_height s' = m_height s \<and>
   m_pixels s' = m_pixels s \<and> m_priority s' = m_priority s"
  by (auto simp: WritePNG_def Debug_def split: if_splits png_outcome.splits)

lemma perform_rasters_sized:
  assumes "perform op s = Some s'" and "rasters_sized s"
  shows "rasters_sized s'"
proof (cases op)
  case OpClear
  with assms show ?thesis by (auto simp: Clear_def rasters_sized_def)
next
  case (OpResize w h)
  with assms show ?thesis by (auto simp: Resize_def rasters_sized_def)
next
  case (OpInsertTile x y p t ts)
  with assms show ?thesis by (auto simp: rasters_sized_def dest: InsertTile_shape)
next
  case (OpInsertBlock x y p t ts)
  with assms show ?thesis by (auto simp: rasters_sized_def dest: InsertBlock_shape)
next
  case (OpGetRGB pals)
  with assms show ?thesis by (auto simp: rasters_sized_def dest: GetRGB_shape)
next
  case (OpGetAlpha pals lo hi)
  with assms show ?thesis by (auto simp: rasters_sized_def dest: GetAlpha_shape)
next
  case (OpWritePNG outcome filename pals)
  with assms show ?thesis by (auto simp: rasters_sized_def dest: WritePNG_shape)
qed

lemma perform_all_rasters_sized:
  "perform_all ops s = Some s' \<Longrightarrow> rasters_sized s \<Longrightarrow> rasters_sized s'"
proof (induction ops arbitrary: s)
  case Nil
  then show ?case by simp
next
  case (Cons op ops)
  then show ?case
    by (auto split: Option.bind_splits dest: perform_rasters_sized)
qed

text \<open>C8: after either constructor and after any sequence of \<open>Clear\<close>, \<open>Resize\<close>,
  \<open>InsertTile\<close>, \<open>InsertBlock\<close>, \<open>GetRGB\<close>, \<open>GetAlpha\<close> and \<open>WritePNG\<close> calls, the pixel
  raster and the priority raster have the same size, and it is the current width times
  the current height (the \<open>size_t\<close> product, as the code forms it).\<close>

theorem rasters_same_size:
  assumes "s0 = ImageBuffer_default \<or> s0 = ImageBuffer_sized width height"
    and "perform_all ops s0 = Some s"
  shows "length (m_pixels s) = length (m_priority s) \<and>
         length (m_pixels s) = unat (m_width s * m_height s)"
proof -
  from assms(1) have "rasters_sized s0"
    by (auto simp: rasters_sized_def ImageBuffer_default_def ImageBuffer_sized_def)
  with assms(2) have "rasters_sized s"
    by (rule perform_all_rasters_sized)
  then show ?thesis by (simp add: rasters_sized_def)
qed

theorem rasters_same_size_witness:
  "(ImageBuffer_sized 8 8 = ImageBuffer_default \<or> ImageBuffer_sized 8 8 = ImageBuffer_sized 8 8) \<and>
   perform_all [OpInsertTile 0 0 2 high_tile solid_tileset, OpResize 2 3, OpClear]
     (ImageBuffer_sized 8 8) =
   Some \<lparr>m_width = 2, m_height = 3, m_pixels = [0, 0, 0, 0, 0, 0],
         m_priority = [0, 0, 0, 0, 0, 0], m_rgb = [], m_alpha = [], debug_out = []\<rparr> \<and>
   length [0 :: uint8_t, 0, 0, 0, 0, 0] = length [0 :: uint8_t, 0, 0, 0, 0, 0] \<and>
   length [0 :: uint8_t, 0, 0, 0, 0, 0] = unat (2 * 3 :: size_t)"
proof -
  have run: "perform_all [OpInsertTile 0 0 2 high_tile solid_tileset, OpResize 2 3, OpClear]
     (ImageBuffer_sized 8 8) =
   Some \<lparr>m_width = 2, m_height = 3, m_pixels = [0, 0, 0, 0, 0, 0],
         m_priority = [0, 0, 0, 0, 0, 0], m_rgb = [], m_alpha = [], debug_out = []\<rparr>"
    by code_simp
  from rasters_same_size [OF _ run, of 8 8] show ?thesis
    using run by simp
qed

subsection \<open>The 3-D screen point\<close>

lemma half_mod: "((v::int) mod 2 ^ 64) div 2 = (v div 2) mod 2 ^ 63"
proof -
  have "v mod (2 * 2 ^ 63) = 2 * (v div 2 mod 2 ^ 63) + v mod 2"
    by (rule zmod_zmult2_eq) simp
  then have "(v mod 2 ^ 64) div 2 = (2 * (v div 2 mod 2 ^ 63) + v mod 2) div 2"
    by simp
  also have "\<dots> = v div 2 mod 2 ^ 63"
    by simp
  finally show ?thesis .
qed

lemma ucast_half_plus:
  fixes V top :: size_t
  assumes V: "V = word_of_int v"
  shows "(ucast (V div 2 + top) :: cint) = word_of_int (v div 2 + uint top)"
proof -
  have "uint V = v mod 2 ^ 64"
    by (simp add: V uint_word_of_int take_bit_eq_mod)
  then have h: "uint (V div 2) = take_bit 63 (v div 2)"
    using half_mod [of v] by (simp add: uint_div take_bit_eq_mod)
  have "V div 2 + top = word_of_int (uint (V div 2) + uint top)"
    by simp
  then have "(ucast (V div 2 + top) :: cint) = word_of_int (uint (V div 2) + uint top)"
    by (simp only: ucast_wi_down)
  also have "\<dots> = word_of_int (take_bit 63 (v div 2)) + word_of_int (uint top)"
    by (simp only: h of_int_add)
  also have "(word_of_int (take_bit 63 (v div 2)) :: cint) = word_of_int (v div 2)"
    by (simp add: word_of_int_eq_iff)
  finally show ?thesis by (simp only: of_int_add)
qed

text \<open>C9: for every 3-D tile coordinate \<open>(x, y, z)\<close> the horizontal screen coordinate of
  \<open>ToXYPoint3D\<close> is that of \<open>ToXYPoint\<close> at \<open>(x, y)\<close>, whatever \<open>z\<close> is; the vertical one
  is \<open>(x + y - 2 * z) * TILEHEIGHT / 2 + top\<close>, the quotient rounded down, as an \<open>int\<close>
  (that is, modulo \<open>2 ^ 32\<close>).\<close>

theorem ToXYPoint3D_elevation:
  "wx_x (ToXYPoint3D b \<lparr>tp3_x = x, tp3_y = y, tp3_z = z\<rparr>) =
     wx_x (ToXYPoint b \<lparr>tp_x = x, tp_y = y\<rparr>) \<and>
   wx_y (ToXYPoint3D b \<lparr>tp3_x = x, tp3_y = y, tp3_z = z\<rparr>) =
     word_of_int ((uint x + uint y - 2 * uint z) * uint (TILEHEIGHT b) div 2 + uint (GetTop b))"
proof -
  have "(x + y - z * 2) * TILEHEIGHT b =
        word_of_int ((uint x + uint y - 2 * uint z) * uint (TILEHEIGHT b))"
    by (simp add: mult.commute)
  from ucast_half_plus [OF this, of "GetTop b"] show ?thesis
    by (simp add: ToXYPoint3D_def ToXYPoint_def Let_def)
qed

subsection \<open>What the loop of \<open>InsertTile\<close> writes\<close>

lemma dest_offset_reset: "i mod 8 = 0 \<Longrightarrow> row_it + w * of_nat (i div 8) = dest_offset w row_it i"
  by (simp add: dest_offset_def)

lemma dest_offset_Suc:
  "Suc i mod 8 \<noteq> 0 \<Longrightarrow> dest_offset w row_it i + 1 = dest_offset w row_it (Suc i)"
proof -
  assume a: "Suc i mod 8 \<noteq> 0"
  then have "Suc i div 8 = i div 8"
    by (simp add: div_Suc)
  moreover from a have "Suc i mod 8 = Suc (i mod 8)"
    by (simp add: mod_Suc split: if_splits)
  ultimately show ?thesis by (simp add: dest_offset_def)
qed

lemma InsertTile_loop_Cons:
  assumes "i mod 8 \<noteq> 0 \<longrightarrow> dest_it = dest_offset w row_it i \<and> pri_dest_it = dest_offset w pri_row_it i"
  shows "InsertTile_loop w row_it pri_row_it pal_bits priority (b # bits) i dest_it pri_dest_it s =
     (if b \<noteq> 0 then
        (if unat (dest_offset w row_it i) < length (m_pixels s) \<and>
            unat (dest_offset w pri_row_it i) < length (m_priority s)
         then InsertTile_loop w row_it pri_row_it pal_bits priority bits (Suc i)
                (dest_offset w row_it i + 1) (dest_offset w pri_row_it i + 1)
                (s\<lparr>m_pixels := (m_pixels s)[unat (dest_offset w row_it i) := b OR pal_bits],
                   m_priority := (m_priority s)[unat (dest_offset w pri_row_it i) := priority]\<rparr>)
         else None)
      else InsertTile_loop w row_it pri_row_it pal_bits priority bits (Suc i)
             (dest_offset w row_it i + 1) (dest_offset w pri_row_it i + 1) s)"
proof (cases "i mod 8 = 0")
  case True
  then show ?thesis
    by (simp add: Let_def dest_offset_reset)
next
  case False
  with assms show ?thesis
    by (simp add: Let_def)
qed

lemma InsertTile_loop_effect:
  assumes "i mod 8 \<noteq> 0 \<longrightarrow> dest_it = dest_offset w row_it i \<and> pri_dest_it = dest_offset w pri_row_it i"
    and "\<forall>k<length bits. unat (dest_offset w row_it (i + k)) < length (m_pixels s) \<and>
                         unat (dest_offset w pri_row_it (i + k)) < length (m_priority s)"
    and "inj_on (\<lambda>k. unat (dest_offset w row_it k)) {i..<i + length bits}"
    and "inj_on (\<lambda>k. unat (dest_offset w pri_row_it k)) {i..<i + length bits}"
  shows "\<exists>s'. InsertTile_loop w row_it pri_row_it pal_bits priority bits i dest_it pri_dest_it s = Some s' \<and>
     (\<forall>k<length bits.
        m_pixels s' ! unat (dest_offset w row_it (i + k)) =
          (if bits ! k \<noteq> 0 then bits ! k OR pal_bits
           else m_pixels s ! unat (dest_offset w row_it (i + k))) \<and>
        m_priority s' ! unat (dest_offset w pri_row_it (i + k)) =
          (if bits ! k \<noteq> 0 then priority
           else m_priority s ! unat (dest_offset w pri_row_it (i + k)))) \<and>
     (\<forall>j. j \<notin> (\<lambda>k. unat (dest_offset w row_it k)) ` {i..<i + length bits} \<longrightarrow>
          m_pixels s' ! j = m_pixels s ! j) \<and>
     (\<forall>j. j \<notin> (\<lambda>k. unat (dest_offset w pri_row_it k)) ` {i..<i + length bits} \<longrightarrow>
          m_priority s' ! j = m_priority s ! j)"
  using assms
proof (induction bits arbitrary: i dest_it pri_dest_it s)
  case Nil
  then show ?case by simp
next
  case (Cons b bits)
  let ?pos = "\<lambda>k. unat (dest_offset w row_it k)"
  let ?ppos = "\<lambda>k. unat (dest_offset w pri_row_it k)"
  let ?s1 = "if b \<noteq> 0
             then s\<lparr>m_pixels := (m_pixels s)[?pos i := b OR pal_bits],
                    m_priority := (m_priority s)[?ppos i := priority]\<rparr>
             else s"
  have len1: "length (m_pixels ?s1) = length (m_pixels s)"
       "length (m_priority ?s1) = length (m_priority s)"
    by simp_all
  from Cons.prems(2) have here: "?pos i < length (m_pixels s)" "?ppos i < length (m_priority s)"
    by force+
  have step: "InsertTile_loop w row_it pri_row_it pal_bits priority (b # bits) i dest_it pri_dest_it s =
      InsertTile_loop w row_it pri_row_it pal_bits priority bits (Suc i)
        (dest_offset w row_it i + 1) (dest_offset w pri_row_it i + 1) ?s1"
    by (subst InsertTile_loop_Cons [OF Cons.prems(1)]) (use here in \<open>simp del: InsertTile_loop.simps\<close>)
  have inv1: "Suc i mod 8 \<noteq> 0 \<longrightarrow>
      dest_offset w row_it i + 1 = dest_offset w row_it (Suc i) \<and>
      dest_offset w pri_row_it i + 1 = dest_offset w pri_row_it (Suc i)"
    by (simp add: dest_offset_Suc)
  have rng1: "\<forall>k<length bits. ?pos (Suc i + k) < length (m_pixels ?s1) \<and>
                               ?ppos (Suc i + k) < length (m_priority ?s1)"
  proof (intro allI impI)
    fix k assume "k < length bits"
    then have "Suc k < length (b # bits)" by simp
    with Cons.prems(2) have "?pos (i + Suc k) < length (m_pixels s) \<and>
        ?ppos (i + Suc k) < length (m_priority s)" by blast
    then show "?pos (Suc i + k) < length (m_pixels ?s1) \<and>
               ?ppos (Suc i + k) < length (m_priority ?s1)"
      by (simp add: len1)
  qed
  have sub: "{Suc i..<Suc i + length bits} \<subseteq> {i..<i + length (b # bits)}"
    by auto
  have inj1: "inj_on ?pos {Suc i..<Suc i + length bits}"
       "inj_on ?ppos {Suc i..<Suc i + length bits}"
    using Cons.prems(3,4) sub by (blast intro: inj_on_subset)+
  from Cons.IH [OF inv1 rng1 inj1]
  obtain s' where run: "InsertTile_loop w row_it pri_row_it pal_bits priority bits (Suc i)
        (dest_offset w row_it i + 1) (dest_offset w pri_row_it i + 1) ?s1 = Some s'"
    and written: "\<forall>k<length bits.
        m_pixels s' ! ?pos (Suc i + k) =
          (if bits ! k \<noteq> 0 then bits ! k OR pal_bits else m_pixels ?s1 ! ?pos (Suc i + k)) \<and>
        m_priority s' ! ?ppos (Suc i + k) =
          (if bits ! k \<noteq> 0 then priority else m_priority ?s1 ! ?ppos (Suc i + k))"
    and frame: "\<forall>j. j \<notin> ?pos ` {Suc i..<Suc i + length bits} \<longrightarrow> m_pixels s' ! j = m_pixels ?s1 ! j"
    and pframe: "\<forall>j. j \<notin> ?ppos ` {Suc i..<Suc i + length bits} \<longrightarrow> m_priority s' ! j = m_priority ?s1 ! j"
    by blast
  have apart: "?pos k \<noteq> ?pos i" "?ppos k \<noteq> ?ppos i"
    if "k \<in> {Suc i..<Suc i + length bits}" for k
  proof -
    from that have "k \<in> {i..<i + length (b # bits)}" "i \<in> {i..<i + length (b # bits)}" "k \<noteq> i"
      by auto
    with Cons.prems(3,4) show "?pos k \<noteq> ?pos i" "?ppos k \<noteq> ?ppos i"
      by (auto dest: inj_onD)
  qed
  then have notin: "?pos i \<notin> ?pos ` {Suc i..<Suc i + length bits}"
      "?ppos i \<notin> ?ppos ` {Suc i..<Suc i + length bits}"
    by force+
  have first: "m_pixels ?s1 ! ?pos i = (if b \<noteq> 0 then b OR pal_bits else m_pixels s ! ?pos i)"
      "m_priority ?s1 ! ?ppos i = (if b \<noteq> 0 then priority else m_priority s ! ?ppos i)"
    using here by simp_all
  have other: "m_pixels ?s1 ! j = m_pixels s ! j" if "j \<noteq> ?pos i" for j
    using that by simp
  have pother: "m_priority ?s1 ! j = m_priority s ! j" if "j \<noteq> ?ppos i" for j
    using that by simp
  have w: "m_pixels s' ! ?pos (i + k) =
          (if (b # bits) ! k \<noteq> 0 then (b # bits) ! k OR pal_bits else m_pixels s ! ?pos (i + k)) \<and>
        m_priority s' ! ?ppos (i + k) =
          (if (b # bits) ! k \<noteq> 0 then priority else m_priority s ! ?ppos (i + k))"
    if "k < length (b # bits)" for k
  proof (cases k)
    case 0
    with frame pframe notin first show ?thesis by simp
  next
    case (Suc k')
    with that have k': "k' < length bits" by simp
    then have "Suc i + k' \<in> {Suc i..<Suc i + length bits}" by simp
    from apart [OF this] have "m_pixels ?s1 ! ?pos (Suc i + k') = m_pixels s ! ?pos (Suc i + k')"
      "m_priority ?s1 ! ?ppos (Suc i + k') = m_priority s ! ?ppos (Suc i + k')"
      using other pother by blast+
    with written k' Suc show ?thesis by simp
  qed
  have f: "m_pixels s' ! j = m_pixels s ! j" if "j \<notin> ?pos ` {i..<i + length (b # bits)}" for j
  proof -
    from that have "j \<noteq> ?pos i" "j \<notin> ?pos ` {Suc i..<Suc i + length bits}"
      using sub by auto
    with frame other show ?thesis by simp
  qed
  have pf: "m_priority s' ! j = m_priority s ! j" if "j \<notin> ?ppos ` {i..<i + length (b # bits)}" for j
  proof -
    from that have "j \<noteq> ?ppos i" "j \<notin> ?ppos ` {Suc i..<Suc i + length bits}"
      using sub by auto
    with pframe pother show ?thesis by simp
  qed
  from step run w f pf show ?case by auto
qed

lemma tile_index_bound:
  fixes X Y W Hh r c :: nat
  assumes "X + 7 < W" and "Y + 7 < Hh" and "r \<le> 7" and "c \<le> 7"
  shows "(Y + r) * W + X + c < W * Hh"
proof -
  have "(Y + r) * W + X + c < (Y + r) * W + W"
    using assms by simp
  also have "\<dots> = (Y + r + 1) * W"
    by simp
  also have "\<dots> \<le> Hh * W"
    using assms by (intro mult_le_mono1) simp
  finally show ?thesis by (simp add: mult.commute)
qed

lemma tile_index_inj:
  fixes X W :: nat
  assumes "(Y + k div 8) * W + X + k mod 8 = (Y + k' div 8) * W + X + k' mod 8"
    and "X + 7 < W"
  shows "k = k'"
proof -
  have c: "X + k mod 8 < W" "X + k' mod 8 < W"
    using assms(2) by (simp_all add: less_le_trans [OF _ less_imp_le] add.commute trans_less_add2)
  from assms(1) have e: "(X + k mod 8) + (Y + k div 8) * W = (X + k' mod 8) + (Y + k' div 8) * W"
    by simp
  then have "((X + k mod 8) + (Y + k div 8) * W) mod W = ((X + k' mod 8) + (Y + k' div 8) * W) mod W"
    by (simp only:)
  with c have m: "k mod 8 = k' mod 8" by simp
  from e have "((X + k mod 8) + (Y + k div 8) * W) div W = ((X + k' mod 8) + (Y + k' div 8) * W) div W"
    by (simp only:)
  with c have "k div 8 = k' div 8" by simp
  with m show ?thesis
    by (metis div_mult_mod_eq)
qed

lemma unat_dest_offset:
  fixes x y w :: size_t
  assumes "(unat y + k div 8) * unat w + unat x + k mod 8 < 2 ^ 64"
  shows "unat (dest_offset w (y * w + x) k) = (unat y + k div 8) * unat w + unat x + k mod 8"
proof -
  define n where "n = (unat y + k div 8) * unat w + unat x + k mod 8"
  have "dest_offset w (y * w + x) k = of_nat n"
    unfolding n_def by (simp add: dest_offset_def algebra_simps)
  moreover have "unat (of_nat n :: size_t) = n"
    using assms unfolding n_def [symmetric] by (simp add: unat_of_nat)
  ultimately show ?thesis
    by (simp only: n_def)
qed

text \<open>C1: a tile whose 8 by 8 footprint lies inside the buffer (\<open>x + 7\<close> below the width,
  \<open>y + 7\<close> below the height, the rasters holding one byte for each of the width times
  height pixels) is drawn. Source byte \<open>i\<close> of the 64-byte bitmap belongs to the pixel in
  row \<open>y + i / 8\<close>, column \<open>x + i % 8\<close>. Where the byte is not zero the pixel becomes
  \<open>(palette_index << 4) | byte\<close> and its priority the tile's priority attribute; where
  it is zero both stay as they were.\<close>

theorem InsertTile_composites:
  assumes sized: "rasters_sized s"
    and nowrap: "unat (m_width s) * unat (m_height s) < 2 ^ 64"
    and inx: "unat x + 7 < unat (m_width s)"
    and iny: "unat y + 7 < unat (m_height s)"
    and len: "length (tileset tile) = 64"
  shows "\<exists>s'. InsertTile x y palette_index tile tileset s = Some s' \<and>
     (\<forall>i<64.
        let dest = (unat y + i div 8) * unat (m_width s) + unat x + i mod 8;
            raw = tileset tile ! i
        in if raw \<noteq> 0
           then m_pixels s' ! dest = push_bit 4 palette_index OR raw \<and>
                m_priority s' ! dest = attr_priority tile
           else m_pixels s' ! dest = m_pixels s ! dest \<and>
                m_priority s' ! dest = m_priority s ! dest)"
proof -
  let ?w = "m_width s"
  let ?row = "y * ?w + x"
  let ?idx = "\<lambda>k. (unat y + k div 8) * unat ?w + unat x + k mod 8"
  from sized nowrap have lens: "length (m_pixels s) = unat ?w * unat (m_height s)"
      "length (m_priority s) = unat ?w * unat (m_height s)"
    by (simp_all add: rasters_sized_def unat_mult_lem [THEN iffD1])
  have bound: "?idx k < unat ?w * unat (m_height s)" if "k < 64" for k
    using that by (intro tile_index_bound [OF inx iny]) simp_all
  have pos: "unat (dest_offset ?w ?row k) = ?idx k" if "k < 64" for k
    using bound [OF that] nowrap by (intro unat_dest_offset) simp
  have "unat (x + 7) \<le> unat x + 7" "unat (y + 7) \<le> unat y + 7"
    by (simp_all add: unat_word_ariths)
  with inx iny have check: "\<not> (?w \<le> x + 7 \<or> m_height s \<le> y + 7)"
    by (simp add: word_le_nat_alt not_le)
  have rng: "\<forall>k<length (tileset tile). unat (dest_offset ?w ?row (0 + k)) < length (m_pixels s) \<and>
                         unat (dest_offset ?w ?row (0 + k)) < length (m_priority s)"
    using pos bound by (simp add: len lens)
  have inj: "inj_on (\<lambda>k. unat (dest_offset ?w ?row k)) {0..<0 + length (tileset tile)}"
  proof (rule inj_onI)
    fix k k' assume "k \<in> {0..<0 + length (tileset tile)}" "k' \<in> {0..<0 + length (tileset tile)}"
      and "unat (dest_offset ?w ?row k) = unat (dest_offset ?w ?row k')"
    then have "?idx k = ?idx k'" by (simp add: len pos)
    then show "k = k'" by (rule tile_index_inj) (rule inx)
  qed
  from InsertTile_loop_effect [where i = 0 and bits = "tileset tile" and s = s
      and w = ?w and row_it = ?row and pri_row_it = ?row and dest_it = ?row and pri_dest_it = ?row
      and pal_bits = "push_bit 4 palette_index" and priority = "attr_priority tile", OF _ rng inj inj]
  obtain s' where run: "InsertTile_loop ?w ?row ?row (push_bit 4 palette_index) (attr_priority tile)
        (tileset tile) 0 ?row ?row s = Some s'"
    and written: "\<forall>k<length (tileset tile).
        m_pixels s' ! unat (dest_offset ?w ?row (0 + k)) =
          (if tileset tile ! k \<noteq> 0 then tileset tile ! k OR push_bit 4 palette_index
           else m_pixels s ! unat (dest_offset ?w ?row (0 + k))) \<and>
        m_priority s' ! unat (dest_offset ?w ?row (0 + k)) =
          (if tileset tile ! k \<noteq> 0 then attr_priority tile
           else m_priority s ! unat (dest_offset ?w ?row (0 + k)))"
    by auto
  from check run have "InsertTile x y palette_index tile tileset s = Some s'"
    by (simp add: InsertTile_def Let_def)
  moreover have "let dest = ?idx i; raw = tileset tile ! i
        in if raw \<noteq> 0
           then m_pixels s' ! dest = push_bit 4 palette_index OR raw \<and>
                m_priority s' ! dest = attr_priority tile
           else m_pixels s' ! dest = m_pixels s ! dest \<and>
                m_priority s' ! dest = m_priority s ! dest" if "i < 64" for i
    using written [rule_format, of i] that pos [OF that]
    by (simp add: len Let_def or.commute)
  ultimately show ?thesis by blast
qed

theorem InsertTile_composites_witness:
  "rasters_sized (ImageBuffer_sized 8 8) \<and>
   unat (m_width (ImageBuffer_sized 8 8)) * unat (m_height (ImageBuffer_sized 8 8)) < 2 ^ 64 \<and>
   unat (0 :: size_t) + 7 < unat (m_width (ImageBuffer_sized 8 8)) \<and>
   unat (0 :: size_t) + 7 < unat (m_height (ImageBuffer_sized 8 8)) \<and>
   length (solid_tileset high_tile) = 64 \<and>
   (\<exists>s'. InsertTile 0 0 2 high_tile solid_tileset (ImageBuffer_sized 8 8) = Some s' \<and>
     (\<forall>i<64.
        let dest = (unat (0 :: size_t) + i div 8) * unat (m_width (ImageBuffer_sized 8 8)) +
                   unat (0 :: size_t) + i mod 8;
            raw = solid_tileset high_tile ! i
        in if raw \<noteq> 0
           then m_pixels s' ! dest = push_bit 4 2 OR raw \<and>
                m_priority s' ! dest = attr_priority high_tile
           else m_pixels s' ! dest = m_pixels (ImageBuffer_sized 8 8) ! dest \<and>
                m_priority s' ! dest = m_priority (ImageBuffer_sized 8 8) ! dest))"
proof -
  have h: "rasters_sized (ImageBuffer_sized 8 8)"
    "unat (m_width (ImageBuffer_sized 8 8)) * unat (m_height (ImageBuffer_sized 8 8)) < 2 ^ 64"
    "unat (0 :: size_t) + 7 < unat (m_width (ImageBuffer_sized 8 8))"
    "unat (0 :: size_t) + 7 < unat (m_height (ImageBuffer_sized 8 8))"
    "length (solid_tileset high_tile) = 64"
    by (simp_all add: rasters_sized_def ImageBuffer_sized_def solid_tileset_def)
  from h InsertTile_composites [where s = "ImageBuffer_sized 8 8" and x = 0 and y = 0
      and tile = high_tile and tileset = solid_tileset and palette_index = 2]
  show ?thesis
    by blast
qed

subsection \<open>\<open>InsertBlock\<close> and four \<open>InsertTile\<close> calls\<close>

text \<open>The two do not agree for every \<open>x\<close> and \<open>y\<close>. With \<open>y = SIZE_MAX - 7\<close> on an 8 by 8
  buffer the guard of \<open>InsertBlock\<close> sees the index \<open>(y + 7) * 8 + 7 = SIZE_MAX\<close> and
  rejects the block, while \<open>y + 8\<close> wraps to \<open>0\<close> and the third call by hand draws its tile
  at \<open>(0, 0)\<close>.\<close>

theorem InsertBlock_is_four_tiles_counterexample:
  "map_option rasters (InsertBlock 0 (- 8) 2 solid_block solid_tileset (ImageBuffer_sized 8 8)) =
     Some (8, 8, replicate 64 0, replicate 64 0) \<and>
   map_option rasters
     (four_InsertTile_calls 0 (- 8) 2 solid_block solid_tileset (ImageBuffer_sized 8 8)) =
     Some (8, 8, replicate 64 33, replicate 64 1) \<and>
   map_option rasters (InsertBlock 0 (- 8) 2 solid_block solid_tileset (ImageBuffer_sized 8 8)) \<noteq>
   map_option rasters
     (four_InsertTile_calls 0 (- 8) 2 solid_block solid_tileset (ImageBuffer_sized 8 8))"
  by code_simp

lemma four_calls_skip:
  assumes "m_width s \<le> x + 7 \<or> m_height s \<le> y + 7"
    and "m_width s \<le> x + 8 + 7 \<or> m_height s \<le> y + 7"
    and "m_width s \<le> x + 7 \<or> m_height s \<le> y + 8 + 7"
    and "m_width s \<le> x + 8 + 7 \<or> m_height s \<le> y + 8 + 7"
  shows "four_InsertTile_calls x y palette_index block tileset s =
     Some (Debug (TileOutOfRange (x + 8) (y + 8) (m_width s) (m_height s))
          (Debug (TileOutOfRange x (y + 8) (m_width s) (m_height s))
          (Debug (TileOutOfRange (x + 8) y (m_width s) (m_height s))
          (Debug (TileOutOfRange x y (m_width s) (m_height s)) s))))"
  using assms by (simp add: four_InsertTile_calls_def InsertTile_skip)

lemma guard_passes:
  assumes sized: "rasters_sized s"
    and nowrap: "unat (m_width s) * unat (m_height s) < 2 ^ 64"
    and inx: "unat x + 7 < unat (m_width s)"
    and iny: "unat y + 7 < unat (m_height s)"
  shows "(y + 7) * m_width s + x + 7 < of_nat (length (m_pixels s))"
proof -
  let ?n = "unat (m_width s) * unat (m_height s)"
  from sized have "length (m_pixels s) = unat (m_width s * m_height s)"
    by (simp add: rasters_sized_def)
  also have "\<dots> = ?n"
    using nowrap by (rule unat_mult_nowrap)
  finally have len: "length (m_pixels s) = ?n" .
  have b: "(unat y + 63 div 8) * unat (m_width s) + unat x + 63 mod 8 < ?n"
    by (intro tile_index_bound [OF inx iny]) simp_all
  with nowrap have "unat (dest_offset (m_width s) (y * m_width s + x) 63) =
      (unat y + 63 div 8) * unat (m_width s) + unat x + 63 mod 8"
    by (intro unat_dest_offset) simp
  moreover have "dest_offset (m_width s) (y * m_width s + x) 63 = (y + 7) * m_width s + x + 7"
    by (simp add: dest_offset_def algebra_simps)
  ultimately have g: "unat ((y + 7) * m_width s + x + 7) < ?n"
    using b by (simp only:)
  have "unat (of_nat ?n :: size_t) = ?n"
    using nowrap by (simp add: unat_mult_nowrap)
  with g show ?thesis
    by (simp only: word_less_nat_alt len)
qed

text \<open>C2, as the code has it: on a buffer whose rasters hold one byte for each of the
  width times height pixels, and for \<open>x\<close> and \<open>y\<close> up to \<open>SIZE_MAX - 15\<close> (so that no
  quadrant coordinate wraps), \<open>InsertBlock\<close> leaves the dimensions and both rasters as the
  four \<open>InsertTile\<close> calls made by hand leave them, also when one of them has undefined
  behaviour. The guard of \<open>InsertBlock\<close> then only rejects blocks none of whose tiles
  \<open>InsertTile\<close> would draw.\<close>

theorem InsertBlock_is_four_tiles:
  assumes sized: "rasters_sized s"
    and nowrap: "unat (m_width s) * unat (m_height s) < 2 ^ 64"
    and xs: "unat x + 15 < 2 ^ 64"
    and ys: "unat y + 15 < 2 ^ 64"
  shows "map_option rasters (InsertBlock x y palette_index block tileset s) =
         map_option rasters (four_InsertTile_calls x y palette_index block tileset s)"
proof (cases "(y + 7) * m_width s + x + 7 < of_nat (length (m_pixels s))")
  case True
  then show ?thesis
    by (simp add: InsertBlock_def four_InsertTile_calls_def)
next
  case False
  with guard_passes [OF sized nowrap]
  have out: "unat (m_width s) \<le> unat x + 7 \<or> unat (m_height s) \<le> unat y + 7"
    by (meson not_le)
  from xs have ux: "unat (x + 7) = unat x + 7" "unat (x + 8 + 7) = unat x + 15"
    by (simp_all add: unat_word_ariths)
  from ys have uy: "unat (y + 7) = unat y + 7" "unat (y + 8 + 7) = unat y + 15"
    by (simp_all add: unat_word_ariths)
  from out ux uy have
    "m_width s \<le> x + 7 \<or> m_height s \<le> y + 7"
    "m_width s \<le> x + 8 + 7 \<or> m_height s \<le> y + 7"
    "m_width s \<le> x + 7 \<or> m_height s \<le> y + 8 + 7"
    "m_width s \<le> x + 8 + 7 \<or> m_height s \<le> y + 8 + 7"
    by (auto simp: word_le_nat_alt)
  then have quad: "map_option rasters (four_InsertTile_calls x y palette_index block tileset s) =
      Some (rasters s)"
    by (simp add: four_calls_skip)
  from False
  have "map_option rasters (InsertBlock x y palette_index block tileset s) = Some (rasters s)"
    by (simp add: InsertBlock_def)
  with quad show ?thesis by (simp only:)
qed

theorem InsertBlock_is_four_tiles_witness:
  "rasters_sized (ImageBuffer_sized 8 8) \<and>
   unat (m_width (ImageBuffer_sized 8 8)) * unat (m_height (ImageBuffer_sized 8 8)) < 2 ^ 64 \<and>
   unat (8 :: size_t) + 15 < 2 ^ 64 \<and> unat (0 :: size_t) + 15 < 2 ^ 64 \<and>
   map_option rasters (InsertBlock 8 0 2 solid_block solid_tileset (ImageBuffer_sized 8 8)) =
   map_option rasters (four_InsertTile_calls 8 0 2 solid_block solid_tileset (ImageBuffer_sized 8 8))"
proof -
  have h: "rasters_sized (ImageBuffer_sized 8 8)"
    "unat (m_width (ImageBuffer_sized 8 8)) * unat (m_height (ImageBuffer_sized 8 8)) < 2 ^ 64"
    "unat (8 :: size_t) + 15 < 2 ^ 64" "unat (0 :: size_t) + 15 < 2 ^ 64"
    by (simp_all add: rasters_sized_def ImageBuffer_sized_def)
  from h InsertBlock_is_four_tiles [OF h, of 2 solid_block solid_tileset] show ?thesis
    by blast
qed

subsection \<open>Blocks that do not fit\<close>

lemma tile_dest_eq:
  assumes eq: "tile_dest w x y i = tile_dest w x' y' i'"
    and c: "unat x + i mod 8 < unat w" "unat x' + i' mod 8 < unat w"
  shows "unat y + i div 8 = unat y' + i' div 8 \<and> unat x + i mod 8 = unat x' + i' mod 8"
proof -
  let ?W = "unat w"
  from eq have e: "(unat x + i mod 8) + (unat y + i div 8) * ?W =
      (unat x' + i' mod 8) + (unat y' + i' div 8) * ?W"
    by (simp add: tile_dest_def)
  then have "((unat x + i mod 8) + (unat y + i div 8) * ?W) mod ?W =
      ((unat x' + i' mod 8) + (unat y' + i' div 8) * ?W) mod ?W"
    by (simp only:)
  with c have m: "unat x + i mod 8 = unat x' + i' mod 8" by simp
  from e have "((unat x + i mod 8) + (unat y + i div 8) * ?W) div ?W =
      ((unat x' + i' mod 8) + (unat y' + i' div 8) * ?W) div ?W"
    by (simp only:)
  with c have "unat y + i div 8 = unat y' + i' div 8" by simp
  with m show ?thesis by simp
qed

lemma InsertTile_quadrant:
  assumes sized: "rasters_sized s"
    and nowrap: "unat (m_width s) * unat (m_height s) < 2 ^ 64"
    and xs: "unat x + 7 < 2 ^ 64" and ys: "unat y + 7 < 2 ^ 64"
    and len: "tile_fits (m_width s) (m_height s) x y \<Longrightarrow> length (tileset tile) = 64"
  shows "\<exists>s'. InsertTile x y palette_index tile tileset s = Some s' \<and>
     rasters_sized s' \<and> m_width s' = m_width s \<and> m_height s' = m_height s \<and>
     debug_out s' = debug_out s @
       (if tile_fits (m_width s) (m_height s) x y then []
        else [TileOutOfRange x y (m_width s) (m_height s)]) \<and>
     (tile_fits (m_width s) (m_height s) x y \<longrightarrow>
        (\<forall>i<64.
           m_pixels s' ! tile_dest (m_width s) x y i =
             (if tileset tile ! i \<noteq> 0 then push_bit 4 palette_index OR tileset tile ! i
              else m_pixels s ! tile_dest (m_width s) x y i) \<and>
           m_priority s' ! tile_dest (m_width s) x y i =
             (if tileset tile ! i \<noteq> 0 then attr_priority tile
              else m_priority s ! tile_dest (m_width s) x y i))) \<and>
     (\<forall>j. j \<notin> (if tile_fits (m_width s) (m_height s) x y
                then tile_dest (m_width s) x y ` {0..<64} else {}) \<longrightarrow>
          m_pixels s' ! j = m_pixels s ! j \<and> m_priority s' ! j = m_priority s ! j)"
proof (cases "tile_fits (m_width s) (m_height s) x y")
  case False
  from xs ys have u: "unat (x + 7) = unat x + 7" "unat (y + 7) = unat y + 7"
    by (simp_all add: unat_word_ariths)
  with False have "m_width s \<le> x + 7 \<or> m_height s \<le> y + 7"
    by (auto simp: tile_fits_def word_le_nat_alt)
  then have "InsertTile x y palette_index tile tileset s =
      Some (Debug (TileOutOfRange x y (m_width s) (m_height s)) s)"
    by (rule InsertTile_skip)
  with False sized show ?thesis
    by (simp add: rasters_sized_def)
next
  case True
  note len = len [OF True]
  let ?w = "m_width s"
  let ?row = "y * ?w + x"
  from True have inx: "unat x + 7 < unat ?w" and iny: "unat y + 7 < unat (m_height s)"
    by (simp_all add: tile_fits_def)
  from sized nowrap have lens: "length (m_pixels s) = unat ?w * unat (m_height s)"
      "length (m_priority s) = unat ?w * unat (m_height s)"
    by (simp_all add: rasters_sized_def unat_mult_nowrap)
  have bound: "tile_dest ?w x y k < unat ?w * unat (m_height s)" if "k < 64" for k
    unfolding tile_dest_def using that by (intro tile_index_bound [OF inx iny]) simp_all
  have pos: "unat (dest_offset ?w ?row k) = tile_dest ?w x y k" if "k < 64" for k
    unfolding tile_dest_def using bound [OF that] nowrap
    by (intro unat_dest_offset) (simp add: tile_dest_def)
  have "unat (x + 7) \<le> unat x + 7" "unat (y + 7) \<le> unat y + 7"
    by (simp_all add: unat_word_ariths)
  with inx iny have check: "\<not> (?w \<le> x + 7 \<or> m_height s \<le> y + 7)"
    by (simp add: word_le_nat_alt not_le)
  have rng: "\<forall>k<length (tileset tile). unat (dest_offset ?w ?row (0 + k)) < length (m_pixels s) \<and>
                         unat (dest_offset ?w ?row (0 + k)) < length (m_priority s)"
    using pos bound by (simp add: len lens)
  have inj: "inj_on (\<lambda>k. unat (dest_offset ?w ?row k)) {0..<0 + length (tileset tile)}"
  proof (rule inj_onI)
    fix k k' assume "k \<in> {0..<0 + length (tileset tile)}" "k' \<in> {0..<0 + length (tileset tile)}"
      and "unat (dest_offset ?w ?row k) = unat (dest_offset ?w ?row k')"
    then have "tile_dest ?w x y k = tile_dest ?w x y k'" by (simp add: len pos)
    then show "k = k'" unfolding tile_dest_def by (rule tile_index_inj) (rule inx)
  qed
  have img: "(\<lambda>k. unat (dest_offset ?w ?row k)) ` {0..<0 + length (tileset tile)} =
      tile_dest ?w x y ` {0..<64}"
    by (rule image_cong) (simp_all add: len pos)
  from InsertTile_loop_effect [where i = 0 and bits = "tileset tile" and s = s
      and w = ?w and row_it = ?row and pri_row_it = ?row and dest_it = ?row and pri_dest_it = ?row
      and pal_bits = "push_bit 4 palette_index" and priority = "attr_priority tile", OF _ rng inj inj]
  obtain s' where run: "InsertTile_loop ?w ?row ?row (push_bit 4 palette_index) (attr_priority tile)
        (tileset tile) 0 ?row ?row s = Some s'"
    and written: "\<forall>k<length (tileset tile).
        m_pixels s' ! unat (dest_offset ?w ?row (0 + k)) =
          (if tileset tile ! k \<noteq> 0 then tileset tile ! k OR push_bit 4 palette_index
           else m_pixels s ! unat (dest_offset ?w ?row (0 + k))) \<and>
        m_priority s' ! unat (dest_offset ?w ?row (0 + k)) =
          (if tileset tile ! k \<noteq> 0 then attr_priority tile
           else m_priority s ! unat (dest_offset ?w ?row (0 + k)))"
    and frame: "\<forall>j. j \<notin> (\<lambda>k. unat (dest_offset ?w ?row k)) ` {0..<0 + length (tileset tile)} \<longrightarrow>
          m_pixels s' ! j = m_pixels s ! j"
    and pframe: "\<forall>j. j \<notin> (\<lambda>k. unat (dest_offset ?w ?row k)) ` {0..<0 + length (tileset tile)} \<longrightarrow>
          m_priority s' ! j = m_priority s ! j"
    by auto
  from check run have call: "InsertTile x y palette_index tile tileset s = Some s'"
    by (simp add: InsertTile_def Let_def)
  from InsertTile_loop_shape [OF run]
  have shape: "m_width s' = m_width s" "m_height s' = m_height s"
    "length (m_pixels s') = length (m_pixels s)" "length (m_priority s') = length (m_priority s)"
    "debug_out s' = debug_out s"
    by simp_all
  with sized have sized': "rasters_sized s'"
    by (simp add: rasters_sized_def)
  have w: "m_pixels s' ! tile_dest ?w x y i =
             (if tileset tile ! i \<noteq> 0 then push_bit 4 palette_index OR tileset tile ! i
              else m_pixels s ! tile_dest ?w x y i) \<and>
           m_priority s' ! tile_dest ?w x y i =
             (if tileset tile ! i \<noteq> 0 then attr_priority tile
              else m_priority s ! tile_dest ?w x y i)" if "i < 64" for i
    using written [rule_format, of i] that pos [OF that]
    by (simp add: len or.commute)
  have f: "m_pixels s' ! j = m_pixels s ! j \<and> m_priority s' ! j = m_priority s ! j"
    if "j \<notin> tile_dest ?w x y ` {0..<64}" for j
    using that frame pframe unfolding img by blast
  from True call sized' shape w f show ?thesis
    by simp
qed


lemma unat_quadrant_x:
  "unat x + 15 < 2 ^ 64 \<Longrightarrow>
   unat (quadrant_x x q) = unat x + (if q = 1 \<or> q = 3 then 8 else 0)"
  by (simp add: quadrant_x_def unat_word_ariths)

lemma unat_quadrant_y:
  "unat y + 15 < 2 ^ 64 \<Longrightarrow>
   unat (quadrant_y y q) = unat y + (if q = 2 \<or> q = 3 then 8 else 0)"
  by (simp add: quadrant_y_def unat_word_ariths)

lemma quadrant_apart:
  assumes xs: "unat x + 15 < 2 ^ 64" and ys: "unat y + 15 < 2 ^ 64"
    and q: "q < 4" "k < 4" "q \<noteq> k"
    and fq: "tile_fits w h (quadrant_x x q) (quadrant_y y q)"
    and fk: "tile_fits w h (quadrant_x x k) (quadrant_y y k)"
    and i: "i < 64" "i' < 64"
  shows "tile_dest w (quadrant_x x q) (quadrant_y y q) i \<noteq>
         tile_dest w (quadrant_x x k) (quadrant_y y k) i'"
proof
  assume eq: "tile_dest w (quadrant_x x q) (quadrant_y y q) i =
         tile_dest w (quadrant_x x k) (quadrant_y y k) i'"
  have m: "i mod 8 \<le> 7" "i' mod 8 \<le> 7" by simp_all
  from i have d: "i div 8 \<le> 7" "i' div 8 \<le> 7" by simp_all
  from fq m have c: "unat (quadrant_x x q) + i mod 8 < unat w"
    by (simp add: tile_fits_def)
  from fk m have c': "unat (quadrant_x x k) + i' mod 8 < unat w"
    by (simp add: tile_fits_def)
  from tile_dest_eq [OF eq c c']
  have r: "unat (quadrant_y y q) + i div 8 = unat (quadrant_y y k) + i' div 8"
    and cl: "unat (quadrant_x x q) + i mod 8 = unat (quadrant_x x k) + i' mod 8"
    by simp_all
  from cl m have "(q = 1 \<or> q = 3) = (k = 1 \<or> k = 3)"
    by (simp add: unat_quadrant_x [OF xs] split: if_splits)
  moreover from r d have "(q = 2 \<or> q = 3) = (k = 2 \<or> k = 3)"
    by (simp add: unat_quadrant_y [OF ys] split: if_splits)
  ultimately show False using q by arith
qed

lemma quadrant_none_fits:
  assumes xs: "unat x + 15 < 2 ^ 64" and ys: "unat y + 15 < 2 ^ 64"
    and n: "\<not> tile_fits w h x y"
  shows "\<not> tile_fits w h (quadrant_x x q) (quadrant_y y q)"
  using n by (auto simp: tile_fits_def unat_quadrant_x [OF xs] unat_quadrant_y [OF ys])


lemma InsertBlock_clip:
  assumes sized: "rasters_sized s"
    and nowrap: "unat (m_width s) * unat (m_height s) < 2 ^ 64"
    and xs: "unat x + 15 < 2 ^ 64" and ys: "unat y + 15 < 2 ^ 64"
    and len: "\<forall>q<4. tile_fits (m_width s) (m_height s) (quadrant_x x q) (quadrant_y y q) \<longrightarrow>
                length (tileset (getTile block q)) = 64"
  shows "\<exists>s'. InsertBlock x y palette_index block tileset s = Some s' \<and>
     m_width s' = m_width s \<and> m_height s' = m_height s \<and>
     length (m_pixels s') = length (m_pixels s) \<and>
     length (m_priority s') = length (m_priority s) \<and>
     debug_out s' = debug_out s @
       (if (y + 7) * m_width s + x + 7 < of_nat (length (m_pixels s))
        then concat (map (\<lambda>q.
               if tile_fits (m_width s) (m_height s) (quadrant_x x q) (quadrant_y y q) then []
               else [TileOutOfRange (quadrant_x x q) (quadrant_y y q) (m_width s) (m_height s)])
             [0, 1, 2, 3])
        else [BlockOutOfRange]) \<and>
     (\<forall>q<4. tile_fits (m_width s) (m_height s) (quadrant_x x q) (quadrant_y y q) \<longrightarrow>
        (\<forall>i<64.
           m_pixels s' ! tile_dest (m_width s) (quadrant_x x q) (quadrant_y y q) i =
             (if tileset (getTile block q) ! i \<noteq> 0
              then push_bit 4 palette_index OR tileset (getTile block q) ! i
              else m_pixels s ! tile_dest (m_width s) (quadrant_x x q) (quadrant_y y q) i) \<and>
           m_priority s' ! tile_dest (m_width s) (quadrant_x x q) (quadrant_y y q) i =
             (if tileset (getTile block q) ! i \<noteq> 0 then attr_priority (getTile block q)
              else m_priority s ! tile_dest (m_width s) (quadrant_x x q) (quadrant_y y q) i))) \<and>
     (\<forall>j. (\<forall>q<4. tile_fits (m_width s) (m_height s) (quadrant_x x q) (quadrant_y y q) \<longrightarrow>
                 j \<notin> tile_dest (m_width s) (quadrant_x x q) (quadrant_y y q) ` {0..<64}) \<longrightarrow>
          m_pixels s' ! j = m_pixels s ! j \<and> m_priority s' ! j = m_priority s ! j)"
proof (cases "(y + 7) * m_width s + x + 7 < of_nat (length (m_pixels s))")
  case False
  with guard_passes [OF sized nowrap] have "\<not> tile_fits (m_width s) (m_height s) x y"
    by (auto simp: tile_fits_def)
  then have none: "\<not> tile_fits (m_width s) (m_height s) (quadrant_x x q) (quadrant_y y q)" for q
    by (rule quadrant_none_fits [OF xs ys])
  from False
  have "InsertBlock x y palette_index block tileset s = Some (Debug BlockOutOfRange s)"
    by (simp add: InsertBlock_def)
  with False none show ?thesis
    by simp
next
  case True
  define fits where
    "fits q = tile_fits (m_width s) (m_height s) (quadrant_x x q) (quadrant_y y q)" for q
  define D where "D q = tile_dest (m_width s) (quadrant_x x q) (quadrant_y y q)" for q
  define A where "A q = (if fits q then D q ` {0..<64} else {})" for q
  define R where
    "R q = (if fits q then []
            else [TileOutOfRange (quadrant_x x q) (quadrant_y y q) (m_width s) (m_height s)])" for q
  define V where "V t j = (m_pixels t ! j, m_priority t ! j)" for t :: ImageBuffer and j
  define val where
    "val q i old = (if tileset (getTile block q) ! i \<noteq> 0
       then (push_bit 4 palette_index OR tileset (getTile block q) ! i,
             attr_priority (getTile block q))
       else old)" for q i and old :: "uint8_t \<times> uint8_t"
  have step: "\<exists>t'. InsertTile (quadrant_x x q) (quadrant_y y q) palette_index (getTile block q)
          tileset t = Some t' \<and>
        rasters_sized t' \<and> m_width t' = m_width s \<and> m_height t' = m_height s \<and>
        length (m_pixels t') = length (m_pixels t) \<and>
        length (m_priority t') = length (m_priority t) \<and>
        debug_out t' = debug_out t @ R q \<and>
        (fits q \<longrightarrow> (\<forall>i<64. V t' (D q i) = val q i (V t (D q i)))) \<and>
        (\<forall>j. j \<notin> A q \<longrightarrow> V t' j = V t j)"
    if t: "rasters_sized t" "m_width t = m_width s" "m_height t = m_height s" and q: "q < 4"
    for t q
  proof -
    have b: "unat (m_width t) * unat (m_height t) < 2 ^ 64"
      using nowrap t by simp
    have bx: "unat (quadrant_x x q) + 7 < 2 ^ 64"
      using xs by (simp add: unat_quadrant_x)
    have "by": "unat (quadrant_y y q) + 7 < 2 ^ 64"
      using ys by (simp add: unat_quadrant_y)
    have l: "length (tileset (getTile block q)) = 64"
      if "tile_fits (m_width t) (m_height t) (quadrant_x x q) (quadrant_y y q)"
      using that len q t by simp
    from InsertTile_quadrant [where tileset = tileset and tile = "getTile block q"
        and palette_index = palette_index, OF t(1) b bx "by" l]
    obtain t' where call: "InsertTile (quadrant_x x q) (quadrant_y y q) palette_index
          (getTile block q) tileset t = Some t'"
      and z: "rasters_sized t'" and dm: "m_width t' = m_width t" "m_height t' = m_height t"
      and dbg: "debug_out t' = debug_out t @ R q"
      and wr: "fits q \<longrightarrow> (\<forall>i<64. V t' (D q i) = val q i (V t (D q i)))"
      and fr: "\<forall>j. j \<notin> A q \<longrightarrow> V t' j = V t j"
      unfolding fits_def D_def A_def R_def V_def val_def t(2,3)
      by (auto simp: t)
    from z t dm have "length (m_pixels t') = length (m_pixels t)"
      "length (m_priority t') = length (m_priority t)"
      by (simp_all add: rasters_sized_def)
    with call z dm dbg wr fr t show ?thesis
      by simp
  qed
  have X: "quadrant_x x 0 = x" "quadrant_x x 1 = x + 8" "quadrant_x x 2 = x"
      "quadrant_x x 3 = x + 8"
    by (simp_all add: quadrant_x_def)
  have Y: "quadrant_y y 0 = y" "quadrant_y y 1 = y" "quadrant_y y 2 = y + 8"
      "quadrant_y y 3 = y + 8"
    by (simp_all add: quadrant_y_def)
  from step [of s 0] sized
  obtain s1 where t0: "InsertTile x y palette_index (getTile block 0) tileset s = Some s1"
    and z1: "rasters_sized s1" "m_width s1 = m_width s" "m_height s1 = m_height s"
    and l1: "length (m_pixels s1) = length (m_pixels s)"
      "length (m_priority s1) = length (m_priority s)"
    and g1: "debug_out s1 = debug_out s @ R 0"
    and w1: "fits 0 \<longrightarrow> (\<forall>i<64. V s1 (D 0 i) = val 0 i (V s (D 0 i)))"
    and f1: "\<forall>j. j \<notin> A 0 \<longrightarrow> V s1 j = V s j"
    unfolding X Y by auto
  from step [of s1 1] z1
  obtain s2 where t1: "InsertTile (x + 8) y palette_index (getTile block 1) tileset s1 = Some s2"
    and z2: "rasters_sized s2" "m_width s2 = m_width s" "m_height s2 = m_height s"
    and l2: "length (m_pixels s2) = length (m_pixels s1)"
      "length (m_priority s2) = length (m_priority s1)"
    and g2: "debug_out s2 = debug_out s1 @ R 1"
    and w2: "fits 1 \<longrightarrow> (\<forall>i<64. V s2 (D 1 i) = val 1 i (V s1 (D 1 i)))"
    and f2: "\<forall>j. j \<notin> A 1 \<longrightarrow> V s2 j = V s1 j"
    unfolding X Y by auto
  from step [of s2 2] z2
  obtain s3 where t2: "InsertTile x (y + 8) palette_index (getTile block 2) tileset s2 = Some s3"
    and z3: "rasters_sized s3" "m_width s3 = m_width s" "m_height s3 = m_height s"
    and l3: "length (m_pixels s3) = length (m_pixels s2)"
      "length (m_priority s3) = length (m_priority s2)"
    and g3: "debug_out s3 = debug_out s2 @ R 2"
    and w3: "fits 2 \<longrightarrow> (\<forall>i<64. V s3 (D 2 i) = val 2 i (V s2 (D 2 i)))"
    and f3: "\<forall>j. j \<notin> A 2 \<longrightarrow> V s3 j = V s2 j"
    unfolding X Y by auto
  from step [of s3 3] z3
  obtain s4 where t3: "InsertTile (x + 8) (y + 8) palette_index (getTile block 3) tileset s3 = Some s4"
    and z4: "rasters_sized s4" "m_width s4 = m_width s" "m_height s4 = m_height s"
    and l4: "length (m_pixels s4) = length (m_pixels s3)"
      "length (m_priority s4) = length (m_priority s3)"
    and g4: "debug_out s4 = debug_out s3 @ R 3"
    and w4: "fits 3 \<longrightarrow> (\<forall>i<64. V s4 (D 3 i) = val 3 i (V s3 (D 3 i)))"
    and f4: "\<forall>j. j \<notin> A 3 \<longrightarrow> V s4 j = V s3 j"
    unfolding X Y by auto
  from True t0 t1 t2 t3
  have call: "InsertBlock x y palette_index block tileset s = Some s4"
    by (simp add: InsertBlock_def)
  have dbg: "debug_out s4 = debug_out s @ concat (map R [0, 1, 2, 3])"
    by (simp add: g1 g2 g3 g4)
  have apart: "D q i \<notin> A k" if "q < 4" "k < 4" "q \<noteq> k" "fits q" "i < 64" for q k i
  proof (cases "fits k")
    case False
    then show ?thesis by (simp add: A_def)
  next
    case True
    have ne: "D q i \<noteq> D k i'" if "i' < 64" for i'
      unfolding D_def
      using xs ys \<open>q < 4\<close> \<open>k < 4\<close> \<open>q \<noteq> k\<close> \<open>fits q\<close> [unfolded fits_def]
        True [unfolded fits_def] \<open>i < 64\<close> that
      by (rule quadrant_apart)
    have "D q i \<notin> D k ` {0..<64}"
    proof
      assume "D q i \<in> D k ` {0..<64}"
      then obtain i' where "i' < 64" "D q i = D k i'" by auto
      with ne show False by blast
    qed
    with True show ?thesis by (simp add: A_def)
  qed
  have wr: "V s4 (D q i) = val q i (V s (D q i))" if q: "q < 4" and fq: "fits q" and i: "i < 64"
    for q i
  proof -
    from q consider "q = 0" | "q = 1" | "q = 2" | "q = 3" by arith
    then show ?thesis
    proof cases
      case 1
      from apart [of 0 1 i] apart [of 0 2 i] apart [of 0 3 i] fq i 1
      have "D 0 i \<notin> A 1" "D 0 i \<notin> A 2" "D 0 i \<notin> A 3" by simp_all
      with f2 f3 f4 w1 fq i 1 show ?thesis by simp
    next
      case 2
      from apart [of 1 0 i] apart [of 1 2 i] apart [of 1 3 i] fq i 2
      have "D 1 i \<notin> A 0" "D 1 i \<notin> A 2" "D 1 i \<notin> A 3" by simp_all
      with f1 f3 f4 w2 fq i 2 show ?thesis by simp
    next
      case 3
      from apart [of 2 0 i] apart [of 2 1 i] apart [of 2 3 i] fq i 3
      have "D 2 i \<notin> A 0" "D 2 i \<notin> A 1" "D 2 i \<notin> A 3" by simp_all
      with f1 f2 f4 w3 fq i 3 show ?thesis by simp
    next
      case 4
      from apart [of 3 0 i] apart [of 3 1 i] apart [of 3 2 i] fq i 4
      have "D 3 i \<notin> A 0" "D 3 i \<notin> A 1" "D 3 i \<notin> A 2" by simp_all
      with f1 f2 f3 w4 fq i 4 show ?thesis by simp
    qed
  qed
  have fr: "V s4 j = V s j" if "\<forall>q<4. fits q \<longrightarrow> j \<notin> D q ` {0..<64}" for j
  proof -
    from that have "j \<notin> A 0" "j \<notin> A 1" "j \<notin> A 2" "j \<notin> A 3"
      by (simp_all add: A_def)
    with f1 f2 f3 f4 show ?thesis by simp
  qed
  have wr': "\<forall>q<4. fits q \<longrightarrow> (\<forall>i<64.
      m_pixels s4 ! D q i =
        (if tileset (getTile block q) ! i \<noteq> 0
         then push_bit 4 palette_index OR tileset (getTile block q) ! i
         else m_pixels s ! D q i) \<and>
      m_priority s4 ! D q i =
        (if tileset (getTile block q) ! i \<noteq> 0 then attr_priority (getTile block q)
         else m_priority s ! D q i))"
  proof (intro allI impI)
    fix q i :: nat
    assume "q < 4" "fits q" "i < 64"
    from wr [OF this] show "m_pixels s4 ! D q i =
        (if tileset (getTile block q) ! i \<noteq> 0
         then push_bit 4 palette_index OR tileset (getTile block q) ! i
         else m_pixels s ! D q i) \<and>
      m_priority s4 ! D q i =
        (if tileset (getTile block q) ! i \<noteq> 0 then attr_priority (getTile block q)
         else m_priority s ! D q i)"
      by (simp add: V_def val_def split: if_splits)
  qed
  from fr have fr': "\<forall>j. (\<forall>q<4. fits q \<longrightarrow> j \<notin> D q ` {0..<64}) \<longrightarrow>
      m_pixels s4 ! j = m_pixels s ! j \<and> m_priority s4 ! j = m_priority s ! j"
    by (simp add: V_def)
  have dbg': "debug_out s4 = debug_out s @
       (if (y + 7) * m_width s + x + 7 < of_nat (length (m_pixels s))
        then concat (map R [0, 1, 2, 3]) else [BlockOutOfRange])"
    by (simp only: dbg if_P [OF True])
  have len': "length (m_pixels s4) = length (m_pixels s)"
    "length (m_priority s4) = length (m_priority s)"
    using l1 l2 l3 l4 by simp_all
  from call z4(2,3) len' dbg' wr' fr' show ?thesis
    unfolding fits_def D_def R_def by blast
qed

lemma InsertBlock_skip:
  assumes "\<not> (y + 7) * m_width s + x + 7 < of_nat (length (m_pixels s)) \<or>
           (m_width s \<le> x + 7 \<or> m_height s \<le> y + 7) \<and>
           (m_width s \<le> x + 8 + 7 \<or> m_height s \<le> y + 7) \<and>
           (m_width s \<le> x + 7 \<or> m_height s \<le> y + 8 + 7) \<and>
           (m_width s \<le> x + 8 + 7 \<or> m_height s \<le> y + 8 + 7)"
  shows "\<exists>s' msgs. InsertBlock x y palette_index block tileset s = Some s' \<and>
        m_pixels s' = m_pixels s \<and> m_priority s' = m_priority s \<and>
        m_width s' = m_width s \<and> m_height s' = m_height s \<and>
        debug_out s' = debug_out s @ msgs \<and> msgs \<noteq> []"
proof (cases "(y + 7) * m_width s + x + 7 < of_nat (length (m_pixels s))")
  case False
  then have "InsertBlock x y palette_index block tileset s = Some (Debug BlockOutOfRange s)"
    by (simp add: InsertBlock_def)
  then show ?thesis by simp
next
  case True
  with assms have rej:
    "m_width s \<le> x + 7 \<or> m_height s \<le> y + 7"
    "m_width s \<le> x + 8 + 7 \<or> m_height s \<le> y + 7"
    "m_width s \<le> x + 7 \<or> m_height s \<le> y + 8 + 7"
    "m_width s \<le> x + 8 + 7 \<or> m_height s \<le> y + 8 + 7"
    by blast+
  from True have "InsertBlock x y palette_index block tileset s =
      four_InsertTile_calls x y palette_index block tileset s"
    by (simp add: InsertBlock_def four_InsertTile_calls_def)
  with four_calls_skip [OF rej] show ?thesis by simp
qed

text \<open>A block that hangs over the right edge is not skipped as a whole: at \<open>(8, 0)\<close> on a
  16 by 16 buffer the columns 16 to 23 of the footprint are outside, the guard index
  \<open>7 * 16 + 15\<close> is valid, and the two left tiles are drawn.\<close>

theorem InsertBlock_skipped_counterexample:
  "\<not> unat (8 :: size_t) + 15 < unat (m_width (ImageBuffer_sized 16 16)) \<and>
   map_option rasters (InsertBlock 8 0 2 solid_block solid_tileset (ImageBuffer_sized 16 16)) \<noteq>
   Some (rasters (ImageBuffer_sized 16 16)) \<and>
   map_option debug_out (InsertBlock 8 0 2 solid_block solid_tileset (ImageBuffer_sized 16 16)) =
   Some [TileOutOfRange 16 0 16 16, TileOutOfRange 16 8 16 16]"
  by code_simp

text \<open>C5, as the code has it. First, for every buffer and all \<open>x\<close>, \<open>y\<close>: when the index
  \<open>(y + 7) * width + x + 7\<close> (in \<open>size_t\<close> arithmetic) is not inside the pixel vector, or none
  of the four tiles passes the range check of \<open>InsertTile\<close>, \<open>InsertBlock\<close> leaves the
  dimensions and both rasters untouched, returns normally and reports through \<open>Debug\<close>.
  Second, on a buffer whose rasters hold \<open>width * height\<close> bytes (the product not wrapping),
  for \<open>x\<close> and \<open>y\<close> up to \<open>SIZE_MAX - 15\<close> and 64-byte bitmaps for the quadrants that fit,
  \<open>InsertBlock\<close> returns normally and clips quadrant by quadrant. Quadrant \<open>q\<close> has its origin
  at \<open>(quadrant_x x q, quadrant_y y q)\<close> and fits when its 8 by 8 footprint lies inside the
  image. The dimensions and the raster lengths stay. Every quadrant that fits is drawn:
  source byte \<open>i\<close> of its bitmap goes to the raster index
  \<open>(yq + i div 8) * width + xq + i mod 8\<close>, where a nonzero byte stores
  \<open>(palette_index << 4) | byte\<close> and the priority of the quadrant's tile, and a zero byte leaves
  both entries as they were before the call. Every raster entry outside the quadrants that
  fit keeps its value. The \<open>Debug\<close> log gains one \<open>TileOutOfRange\<close> message for each quadrant
  that does not fit, in the order of the calls, when the guard index is inside the pixel
  vector, and the one message \<open>BlockOutOfRange\<close> when it is not.\<close>

theorem InsertBlock_skips_or_clips:
  "(\<not> (y + 7) * m_width s + x + 7 < of_nat (length (m_pixels s)) \<or>
     (m_width s \<le> x + 7 \<or> m_height s \<le> y + 7) \<and>
     (m_width s \<le> x + 8 + 7 \<or> m_height s \<le> y + 7) \<and>
     (m_width s \<le> x + 7 \<or> m_height s \<le> y + 8 + 7) \<and>
     (m_width s \<le> x + 8 + 7 \<or> m_height s \<le> y + 8 + 7) \<longrightarrow>
    (\<exists>s' msgs. InsertBlock x y palette_index block tileset s = Some s' \<and>
        m_pixels s' = m_pixels s \<and> m_priority s' = m_priority s \<and>
        m_width s' = m_width s \<and> m_height s' = m_height s \<and>
        debug_out s' = debug_out s @ msgs \<and> msgs \<noteq> [])) \<and>
   (rasters_sized s \<and> unat (m_width s) * unat (m_height s) < 2 ^ 64 \<and>
     unat x + 15 < 2 ^ 64 \<and> unat y + 15 < 2 ^ 64 \<and>
     (\<forall>q<4. tile_fits (m_width s) (m_height s) (quadrant_x x q) (quadrant_y y q) \<longrightarrow>
            length (tileset (getTile block q)) = 64) \<longrightarrow>
    (\<exists>s'. InsertBlock x y palette_index block tileset s = Some s' \<and>
        m_width s' = m_width s \<and> m_height s' = m_height s \<and>
        length (m_pixels s') = length (m_pixels s) \<and>
        length (m_priority s') = length (m_priority s) \<and>
        debug_out s' = debug_out s @
          (if (y + 7) * m_width s + x + 7 < of_nat (length (m_pixels s))
           then concat (map (\<lambda>q.
                  if tile_fits (m_width s) (m_height s) (quadrant_x x q) (quadrant_y y q) then []
                  else [TileOutOfRange (quadrant_x x q) (quadrant_y y q) (m_width s) (m_height s)])
                [0, 1, 2, 3])
           else [BlockOutOfRange]) \<and>
        (\<forall>q<4. tile_fits (m_width s) (m_height s) (quadrant_x x q) (quadrant_y y q) \<longrightarrow>
           (\<forall>i<64.
              m_pixels s' ! tile_dest (m_width s) (quadrant_x x q) (quadrant_y y q) i =
                (if tileset (getTile block q) ! i \<noteq> 0
                 then push_bit 4 palette_index OR tileset (getTile block q) ! i
                 else m_pixels s ! tile_dest (m_width s) (quadrant_x x q) (quadrant_y y q) i) \<and>
              m_priority s' ! tile_dest (m_width s) (quadrant_x x q) (quadrant_y y q) i =
                (if tileset (getTile block q) ! i \<noteq> 0 then attr_priority (getTile block q)
                 else m_priority s ! tile_dest (m_width s) (quadrant_x x q) (quadrant_y y q) i))) \<and>
        (\<forall>j. (\<forall>q<4. tile_fits (m_width s) (m_height s) (quadrant_x x q) (quadrant_y y q) \<longrightarrow>
                    j \<notin> tile_dest (m_width s) (quadrant_x x q) (quadrant_y y q) ` {0..<64}) \<longrightarrow>
             m_pixels s' ! j = m_pixels s ! j \<and> m_priority s' ! j = m_priority s ! j)))"
proof (intro conjI impI)
  assume "\<not> (y + 7) * m_width s + x + 7 < of_nat (length (m_pixels s)) \<or>
     (m_width s \<le> x + 7 \<or> m_height s \<le> y + 7) \<and>
     (m_width s \<le> x + 8 + 7 \<or> m_height s \<le> y + 7) \<and>
     (m_width s \<le> x + 7 \<or> m_height s \<le> y + 8 + 7) \<and>
     (m_width s \<le> x + 8 + 7 \<or> m_height s \<le> y + 8 + 7)"
  then show "\<exists>s' msgs. InsertBlock x y palette_index block tileset s = Some s' \<and>
        m_pixels s' = m_pixels s \<and> m_priority s' = m_priority s \<and>
        m_width s' = m_width s \<and> m_height s' = m_height s \<and>
        debug_out s' = debug_out s @ msgs \<and> msgs \<noteq> []"
    by (rule InsertBlock_skip)
next
  assume "rasters_sized s \<and> unat (m_width s) * unat (m_height s) < 2 ^ 64 \<and>
     unat x + 15 < 2 ^ 64 \<and> unat y + 15 < 2 ^ 64 \<and>
     (\<forall>q<4. tile_fits (m_width s) (m_height s) (quadrant_x x q) (quadrant_y y q) \<longrightarrow>
            length (tileset (getTile block q)) = 64)"
  then show "\<exists>s'. InsertBlock x y palette_index block tileset s = Some s' \<and>
        m_width s' = m_width s \<and> m_height s' = m_height s \<and>
        length (m_pixels s') = length (m_pixels s) \<and>
        length (m_priority s') = length (m_priority s) \<and>
        debug_out s' = debug_out s @
          (if (y + 7) * m_width s + x + 7 < of_nat (length (m_pixels s))
           then concat (map (\<lambda>q.
                  if tile_fits (m_width s) (m_height s) (quadrant_x x q) (quadrant_y y q) then []
                  else [TileOutOfRange (quadrant_x x q) (quadrant_y y q) (m_width s) (m_height s)])
                [0, 1, 2, 3])
           else [BlockOutOfRange]) \<and>
        (\<forall>q<4. tile_fits (m_width s) (m_height s) (quadrant_x x q) (quadrant_y y q) \<longrightarrow>
           (\<forall>i<64.
              m_pixels s' ! tile_dest (m_width s) (quadrant_x x q) (quadrant_y y q) i =
                (if tileset (getTile block q) ! i \<noteq> 0
                 then push_bit 4 palette_index OR tileset (getTile block q) ! i
                 else m_pixels s ! tile_dest (m_width s) (quadrant_x x q) (quadrant_y y q) i) \<and>
              m_priority s' ! tile_dest (m_width s) (quadrant_x x q) (quadrant_y y q) i =
                (if tileset (getTile block q) ! i \<noteq> 0 then attr_priority (getTile block q)
                 else m_priority s ! tile_dest (m_width s) (quadrant_x x q) (quadrant_y y q) i))) \<and>
        (\<forall>j. (\<forall>q<4. tile_fits (m_width s) (m_height s) (quadrant_x x q) (quadrant_y y q) \<longrightarrow>
                    j \<notin> tile_dest (m_width s) (quadrant_x x q) (quadrant_y y q) ` {0..<64}) \<longrightarrow>
             m_pixels s' ! j = m_pixels s ! j \<and> m_priority s' ! j = m_priority s ! j)"
    by (intro InsertBlock_clip) simp_all
qed

text \<open>The first part at \<open>(8, 0)\<close> on an 8 by 8 buffer, where the guard index \<open>7 * 8 + 15\<close> is
  past the end; the second part at \<open>(8, 0)\<close> on a 16 by 16 buffer, where quadrant 0 fits and
  quadrant 1 does not.\<close>

theorem InsertBlock_skips_or_clips_witness:
  "\<not> ((0 :: size_t) + 7) * m_width (ImageBuffer_sized 8 8) + 8 + 7
        < of_nat (length (m_pixels (ImageBuffer_sized 8 8))) \<and>
   (\<exists>s' msgs. InsertBlock 8 0 2 solid_block solid_tileset (ImageBuffer_sized 8 8) = Some s' \<and>
      m_pixels s' = m_pixels (ImageBuffer_sized 8 8) \<and>
      m_priority s' = m_priority (ImageBuffer_sized 8 8) \<and>
      m_width s' = m_width (ImageBuffer_sized 8 8) \<and>
      m_height s' = m_height (ImageBuffer_sized 8 8) \<and>
      debug_out s' = debug_out (ImageBuffer_sized 8 8) @ msgs \<and> msgs \<noteq> []) \<and>
   rasters_sized (ImageBuffer_sized 16 16) \<and>
   unat (m_width (ImageBuffer_sized 16 16)) * unat (m_height (ImageBuffer_sized 16 16)) < 2 ^ 64 \<and>
   unat (8 :: size_t) + 15 < 2 ^ 64 \<and> unat (0 :: size_t) + 15 < 2 ^ 64 \<and>
   length (solid_tileset (getTile solid_block 0)) = 64 \<and>
   length (solid_tileset (getTile solid_block 1)) = 64 \<and>
   length (solid_tileset (getTile solid_block 2)) = 64 \<and>
   length (solid_tileset (getTile solid_block 3)) = 64 \<and>
   tile_fits (m_width (ImageBuffer_sized 16 16)) (m_height (ImageBuffer_sized 16 16))
     (quadrant_x 8 0) (quadrant_y 0 0) \<and>
   \<not> tile_fits (m_width (ImageBuffer_sized 16 16)) (m_height (ImageBuffer_sized 16 16))
     (quadrant_x 8 1) (quadrant_y 0 1) \<and>
   (\<exists>s'. InsertBlock 8 0 2 solid_block solid_tileset (ImageBuffer_sized 16 16) = Some s' \<and>
      m_width s' = m_width (ImageBuffer_sized 16 16) \<and>
      m_height s' = m_height (ImageBuffer_sized 16 16) \<and>
      length (m_pixels s') = length (m_pixels (ImageBuffer_sized 16 16)) \<and>
      length (m_priority s') = length (m_priority (ImageBuffer_sized 16 16)) \<and>
      debug_out s' = debug_out (ImageBuffer_sized 16 16) @
        (if ((0 :: size_t) + 7) * m_width (ImageBuffer_sized 16 16) + 8 + 7
              < of_nat (length (m_pixels (ImageBuffer_sized 16 16)))
         then concat (map (\<lambda>q.
                if tile_fits (m_width (ImageBuffer_sized 16 16)) (m_height (ImageBuffer_sized 16 16))
                     (quadrant_x 8 q) (quadrant_y 0 q)
                then []
                else [TileOutOfRange (quadrant_x 8 q) (quadrant_y 0 q)
                        (m_width (ImageBuffer_sized 16 16)) (m_height (ImageBuffer_sized 16 16))])
              [0, 1, 2, 3])
         else [BlockOutOfRange]) \<and>
      (\<forall>q<4. tile_fits (m_width (ImageBuffer_sized 16 16)) (m_height (ImageBuffer_sized 16 16))
               (quadrant_x 8 q) (quadrant_y 0 q) \<longrightarrow>
         (\<forall>i<64.
            m_pixels s' !
              tile_dest (m_width (ImageBuffer_sized 16 16)) (quadrant_x 8 q) (quadrant_y 0 q) i =
              (if solid_tileset (getTile solid_block q) ! i \<noteq> 0
               then push_bit 4 2 OR solid_tileset (getTile solid_block q) ! i
               else m_pixels (ImageBuffer_sized 16 16) !
                      tile_dest (m_width (ImageBuffer_sized 16 16))
                        (quadrant_x 8 q) (quadrant_y 0 q) i) \<and>
            m_priority s' !
              tile_dest (m_width (ImageBuffer_sized 16 16)) (quadrant_x 8 q) (quadrant_y 0 q) i =
              (if solid_tileset (getTile solid_block q) ! i \<noteq> 0
               then attr_priority (getTile solid_block q)
               else m_priority (ImageBuffer_sized 16 16) !
                      tile_dest (m_width (ImageBuffer_sized 16 16))
                        (quadrant_x 8 q) (quadrant_y 0 q) i))) \<and>
      (\<forall>j. (\<forall>q<4. tile_fits (m_width (ImageBuffer_sized 16 16)) (m_height (ImageBuffer_sized 16 16))
                    (quadrant_x 8 q) (quadrant_y 0 q) \<longrightarrow>
                  j \<notin> tile_dest (m_width (ImageBuffer_sized 16 16))
                         (quadrant_x 8 q) (quadrant_y 0 q) ` {0..<64}) \<longrightarrow>
           m_pixels s' ! j = m_pixels (ImageBuffer_sized 16 16) ! j \<and>
           m_priority s' ! j = m_priority (ImageBuffer_sized 16 16) ! j))"
proof -
  have g: "\<not> ((0 :: size_t) + 7) * m_width (ImageBuffer_sized 8 8) + 8 + 7
        < of_nat (length (m_pixels (ImageBuffer_sized 8 8)))"
    by (simp add: ImageBuffer_sized_def)
  have h: "rasters_sized (ImageBuffer_sized 16 16)"
    "unat (m_width (ImageBuffer_sized 16 16)) * unat (m_height (ImageBuffer_sized 16 16)) < 2 ^ 64"
    "unat (8 :: size_t) + 15 < 2 ^ 64" "unat (0 :: size_t) + 15 < 2 ^ 64"
    by (simp_all add: rasters_sized_def ImageBuffer_sized_def)
  have l: "length (solid_tileset t) = 64" for t
    by (simp add: solid_tileset_def)
  have f: "tile_fits (m_width (ImageBuffer_sized 16 16)) (m_height (ImageBuffer_sized 16 16))
     (quadrant_x 8 0) (quadrant_y 0 0) \<and>
   \<not> tile_fits (m_width (ImageBuffer_sized 16 16)) (m_height (ImageBuffer_sized 16 16))
     (quadrant_x 8 1) (quadrant_y 0 1)"
    by (simp add: tile_fits_def ImageBuffer_sized_def quadrant_x_def quadrant_y_def)
  from g InsertBlock_skips_or_clips [where s = "ImageBuffer_sized 8 8" and x = 8 and y = 0
      and palette_index = 2 and block = solid_block and tileset = solid_tileset]
  have skip: "\<exists>s' msgs. InsertBlock 8 0 2 solid_block solid_tileset (ImageBuffer_sized 8 8) = Some s' \<and>
      m_pixels s' = m_pixels (ImageBuffer_sized 8 8) \<and>
      m_priority s' = m_priority (ImageBuffer_sized 8 8) \<and>
      m_width s' = m_width (ImageBuffer_sized 8 8) \<and>
      m_height s' = m_height (ImageBuffer_sized 8 8) \<and>
      debug_out s' = debug_out (ImageBuffer_sized 8 8) @ msgs \<and> msgs \<noteq> []"
    by blast
  from h l InsertBlock_skips_or_clips [where s = "ImageBuffer_sized 16 16" and x = 8 and y = 0
      and palette_index = 2 and block = solid_block and tileset = solid_tileset]
  have clip: "\<exists>s'. InsertBlock 8 0 2 solid_block solid_tileset (ImageBuffer_sized 16 16) = Some s' \<and>
      m_width s' = m_width (ImageBuffer_sized 16 16) \<and>
      m_height s' = m_height (ImageBuffer_sized 16 16) \<and>
      length (m_pixels s') = length (m_pixels (ImageBuffer_sized 16 16)) \<and>
      length (m_priority s') = length (m_priority (ImageBuffer_sized 16 16)) \<and>
      debug_out s' = debug_out (ImageBuffer_sized 16 16) @
        (if ((0 :: size_t) + 7) * m_width (ImageBuffer_sized 16 16) + 8 + 7
              < of_nat (length (m_pixels (ImageBuffer_sized 16 16)))
         then concat (map (\<lambda>q.
                if tile_fits (m_width (ImageBuffer_sized 16 16)) (m_height (ImageBuffer_sized 16 16))
                     (quadrant_x 8 q) (quadrant_y 0 q)
                then []
                else [TileOutOfRange (quadrant_x 8 q) (quadrant_y 0 q)
                        (m_width (ImageBuffer_sized 16 16)) (m_height (ImageBuffer_sized 16 16))])
              [0, 1, 2, 3])
         else [BlockOutOfRange]) \<and>
      (\<forall>q<4. tile_fits (m_width (ImageBuffer_sized 16 16)) (m_height (ImageBuffer_sized 16 16))
               (quadrant_x 8 q) (quadrant_y 0 q) \<longrightarrow>
         (\<forall>i<64.
            m_pixels s' !
              tile_dest (m_width (ImageBuffer_sized 16 16)) (quadrant_x 8 q) (quadrant_y 0 q) i =
              (if solid_tileset (getTile solid_block q) ! i \<noteq> 0
               then push_bit 4 2 OR solid_tileset (getTile solid_block q) ! i
               else m_pixels (ImageBuffer_sized 16 16) !
                      tile_dest (m_width (ImageBuffer_sized 16 16))
                        (quadrant_x 8 q) (quadrant_y 0 q) i) \<and>
            m_priority s' !
              tile_dest (m_width (ImageBuffer_sized 16 16)) (quadrant_x 8 q) (quadrant_y 0 q) i =
              (if solid_tileset (getTile solid_block q) ! i \<noteq> 0
               then attr_priority (getTile solid_block q)
               else m_priority (ImageBuffer_sized 16 16) !
                      tile_dest (m_width (ImageBuffer_sized 16 16))
                        (quadrant_x 8 q) (quadrant_y 0 q) i))) \<and>
      (\<forall>j. (\<forall>q<4. tile_fits (m_width (ImageBuffer_sized 16 16)) (m_height (ImageBuffer_sized 16 16))
                    (quadrant_x 8 q) (quadrant_y 0 q) \<longrightarrow>
                  j \<notin> tile_dest (m_width (ImageBuffer_sized 16 16))
                         (quadrant_x 8 q) (quadrant_y 0 q) ` {0..<64}) \<longrightarrow>
           m_pixels s' ! j = m_pixels (ImageBuffer_sized 16 16) ! j \<and>
           m_priority s' ! j = m_priority (ImageBuffer_sized 16 16) ! j)"
    by blast
  from g skip h l f clip show ?thesis
    by blast
qed

subsection \<open>RGB export\<close>

lemma GetRGB_loop_effect:
  assumes "\<forall>p\<in>set px. unat (drop_bit 4 p) < length pals"
    and "it + 3 * length px \<le> length rgb"
  shows "\<exists>rgb'. GetRGB_loop pals px it rgb = Some rgb' \<and> length rgb' = length rgb \<and>
     (\<forall>k<length px.
        rgb' ! (it + 3 * k) = getR (pals ! unat (drop_bit 4 (px ! k))) (px ! k AND 0x0F) \<and>
        rgb' ! (it + 3 * k + 1) = getG (pals ! unat (drop_bit 4 (px ! k))) (px ! k AND 0x0F) \<and>
        rgb' ! (it + 3 * k + 2) = getB (pals ! unat (drop_bit 4 (px ! k))) (px ! k AND 0x0F)) \<and>
     (\<forall>j<it. rgb' ! j = rgb ! j)"
  using assms
proof (induction px arbitrary: it rgb)
  case Nil
  then show ?case by simp
next
  case (Cons p px)
  let ?pal = "pals ! unat (drop_bit 4 p)"
  let ?rgb1 = "rgb[it := getR ?pal (p AND 0x0F), it + 1 := getG ?pal (p AND 0x0F),
                   it + 2 := getB ?pal (p AND 0x0F)]"
  from Cons.prems have cov: "unat (drop_bit 4 p) < length pals"
    and room: "it + 2 < length rgb"
    by simp_all
  then have step: "GetRGB_loop pals (p # px) it rgb = GetRGB_loop pals px (it + 3) ?rgb1"
    by simp
  from Cons.prems have "\<forall>p\<in>set px. unat (drop_bit 4 p) < length pals"
    and "it + 3 + 3 * length px \<le> length ?rgb1"
    by simp_all
  from Cons.IH [OF this]
  obtain rgb' where run: "GetRGB_loop pals px (it + 3) ?rgb1 = Some rgb'"
    and len: "length rgb' = length ?rgb1"
    and trip: "\<forall>k<length px.
        rgb' ! (it + 3 + 3 * k) = getR (pals ! unat (drop_bit 4 (px ! k))) (px ! k AND 0x0F) \<and>
        rgb' ! (it + 3 + 3 * k + 1) = getG (pals ! unat (drop_bit 4 (px ! k))) (px ! k AND 0x0F) \<and>
        rgb' ! (it + 3 + 3 * k + 2) = getB (pals ! unat (drop_bit 4 (px ! k))) (px ! k AND 0x0F)"
    and keep: "\<forall>j<it + 3. rgb' ! j = ?rgb1 ! j"
    by blast
  have first: "rgb' ! it = getR ?pal (p AND 0x0F)" "rgb' ! (it + 1) = getG ?pal (p AND 0x0F)"
    "rgb' ! (it + 2) = getB ?pal (p AND 0x0F)"
    using keep room by simp_all
  have t: "rgb' ! (it + 3 * k) = getR (pals ! unat (drop_bit 4 ((p # px) ! k))) ((p # px) ! k AND 0x0F) \<and>
        rgb' ! (it + 3 * k + 1) = getG (pals ! unat (drop_bit 4 ((p # px) ! k))) ((p # px) ! k AND 0x0F) \<and>
        rgb' ! (it + 3 * k + 2) = getB (pals ! unat (drop_bit 4 ((p # px) ! k))) ((p # px) ! k AND 0x0F)"
    if "k < length (p # px)" for k
  proof (cases k)
    case 0
    with first show ?thesis by simp
  next
    case (Suc k')
    with that have "k' < length px" by simp
    with trip Suc show ?thesis
      by (simp add: add.assoc add.left_commute)
  qed
  have "\<forall>j<it. rgb' ! j = rgb ! j"
    using keep by simp
  with step run len t show ?case by simp
qed

lemma unat_mult3_nowrap:
  fixes a b :: size_t
  assumes "unat a * unat b * 3 < 2 ^ 64"
  shows "unat (a * b) = unat a * unat b" and "unat (a * b * 3) = unat a * unat b * 3"
proof -
  from assms have "unat a * unat b < 2 ^ 64" by simp
  then show ab: "unat (a * b) = unat a * unat b" by (rule unat_mult_nowrap)
  have "unat (a * b * 3) = unat (a * b) * unat (3 :: size_t)"
    using assms by (intro unat_mult_nowrap) (simp add: ab)
  then show "unat (a * b * 3) = unat a * unat b * 3"
    by (simp add: ab)
qed

text \<open>C7: for a palette list that covers every palette row used in the buffer, \<open>GetRGB\<close>
  returns width times height times 3 bytes (a count that fits \<open>size_t\<close>), one triplet per
  pixel in raster order: bytes \<open>3i\<close>, \<open>3i + 1\<close>, \<open>3i + 2\<close> are the red, green and blue of
  colour \<open>p & 0xF\<close> in palette \<open>p >> 4\<close>, for \<open>p\<close> the pixel byte number \<open>i\<close>.\<close>

theorem GetRGB_triplets:
  assumes sized: "rasters_sized s"
    and fits: "unat (m_width s) * unat (m_height s) * 3 < 2 ^ 64"
    and covered: "\<forall>p\<in>set (m_pixels s). unat (drop_bit 4 p) < length pals"
  shows "\<exists>rgb s'. GetRGB pals s = Some (rgb, s') \<and>
     length rgb = unat (m_width s) * unat (m_height s) * 3 \<and>
     (\<forall>i<unat (m_width s) * unat (m_height s).
        rgb ! (3 * i) = getR (pals ! unat (drop_bit 4 (m_pixels s ! i))) (m_pixels s ! i AND 0x0F) \<and>
        rgb ! (3 * i + 1) = getG (pals ! unat (drop_bit 4 (m_pixels s ! i))) (m_pixels s ! i AND 0x0F) \<and>
        rgb ! (3 * i + 2) = getB (pals ! unat (drop_bit 4 (m_pixels s ! i))) (m_pixels s ! i AND 0x0F))"
proof -
  let ?n = "unat (m_width s) * unat (m_height s)"
  let ?rgb0 = "resize (unat (m_width s * m_height s * 3)) (m_rgb s)"
  from sized have len: "length (m_pixels s) = ?n"
    by (simp add: rasters_sized_def unat_mult3_nowrap(1) [OF fits])
  have room: "0 + 3 * length (m_pixels s) \<le> length ?rgb0"
    by (simp add: len unat_mult3_nowrap(2) [OF fits])
  from GetRGB_loop_effect [OF covered room]
  obtain rgb where run: "GetRGB_loop pals (m_pixels s) 0 ?rgb0 = Some rgb"
    and l: "length rgb = length ?rgb0"
    and trip: "\<forall>k<length (m_pixels s).
        rgb ! (0 + 3 * k) = getR (pals ! unat (drop_bit 4 (m_pixels s ! k))) (m_pixels s ! k AND 0x0F) \<and>
        rgb ! (0 + 3 * k + 1) = getG (pals ! unat (drop_bit 4 (m_pixels s ! k))) (m_pixels s ! k AND 0x0F) \<and>
        rgb ! (0 + 3 * k + 2) = getB (pals ! unat (drop_bit 4 (m_pixels s ! k))) (m_pixels s ! k AND 0x0F)"
    by blast
  from run have "GetRGB pals s = Some (rgb, s\<lparr>m_rgb := rgb\<rparr>)"
    by (simp add: GetRGB_def)
  moreover from l have "length rgb = ?n * 3"
    by (simp add: unat_mult3_nowrap(2) [OF fits])
  moreover from trip have "\<forall>i<?n.
        rgb ! (3 * i) = getR (pals ! unat (drop_bit 4 (m_pixels s ! i))) (m_pixels s ! i AND 0x0F) \<and>
        rgb ! (3 * i + 1) = getG (pals ! unat (drop_bit 4 (m_pixels s ! i))) (m_pixels s ! i AND 0x0F) \<and>
        rgb ! (3 * i + 2) = getB (pals ! unat (drop_bit 4 (m_pixels s ! i))) (m_pixels s ! i AND 0x0F)"
    by (simp add: len)
  ultimately show ?thesis by blast
qed

theorem GetRGB_triplets_witness:
  "rasters_sized drawn_buffer \<and>
   unat (m_width drawn_buffer) * unat (m_height drawn_buffer) * 3 < 2 ^ 64 \<and>
   (\<exists>rgb s'. GetRGB [grey_palette, grey_palette, grey_palette] drawn_buffer = Some (rgb, s') \<and>
     length rgb = unat (m_width drawn_buffer) * unat (m_height drawn_buffer) * 3 \<and>
     (\<forall>i<unat (m_width drawn_buffer) * unat (m_height drawn_buffer).
        rgb ! (3 * i) =
          getR ([grey_palette, grey_palette, grey_palette] !
                  unat (drop_bit 4 (m_pixels drawn_buffer ! i)))
               (m_pixels drawn_buffer ! i AND 0x0F) \<and>
        rgb ! (3 * i + 1) =
          getG ([grey_palette, grey_palette, grey_palette] !
                  unat (drop_bit 4 (m_pixels drawn_buffer ! i)))
               (m_pixels drawn_buffer ! i AND 0x0F) \<and>
        rgb ! (3 * i + 2) =
          getB ([grey_palette, grey_palette, grey_palette] !
                  unat (drop_bit 4 (m_pixels drawn_buffer ! i)))
               (m_pixels drawn_buffer ! i AND 0x0F)))"
proof -
  have h: "rasters_sized drawn_buffer"
    "unat (m_width drawn_buffer) * unat (m_height drawn_buffer) * 3 < 2 ^ 64"
    "\<forall>p\<in>set (m_pixels drawn_buffer).
       unat (drop_bit 4 p) < length [grey_palette, grey_palette, grey_palette]"
    by (simp_all add: drawn_buffer_value rasters_sized_def)
  from h(1,2) GetRGB_triplets [OF h] show ?thesis
    by blast
qed

subsection \<open>Alpha export\<close>

text \<open>Not for every palette list: with no palette at all, \<open>pals[pixel >> 4]\<close> reads outside
  the vector for the one pixel of a 1 by 1 buffer, and nothing is returned.\<close>

theorem GetAlpha_bytes_counterexample:
  "GetAlpha [] 255 255 (ImageBuffer_sized 1 1) = None"
  by code_simp

lemma GetAlpha_loop_effect:
  assumes "\<forall>p\<in>set px. unat (drop_bit 4 p) < length pals"
    and "length px \<le> length pri"
    and "it + length px \<le> length alpha"
  shows "\<exists>alpha'. GetAlpha_loop pals lo hi px pri it alpha = Some alpha' \<and>
     length alpha' = length alpha \<and>
     (\<forall>k<length px. alpha' ! (it + k) =
        min (if pri ! k \<noteq> 0 then hi else lo)
            (getA (pals ! unat (drop_bit 4 (px ! k))) (px ! k AND 0x0F))) \<and>
     (\<forall>j<it. alpha' ! j = alpha ! j)"
  using assms
proof (induction px arbitrary: pri it alpha)
  case Nil
  then show ?case by simp
next
  case (Cons p px)
  from Cons.prems(2) obtain q pri' where pri: "pri = q # pri'"
    by (cases pri) simp_all
  let ?v = "min (if q \<noteq> 0 then hi else lo) (getA (pals ! unat (drop_bit 4 p)) (p AND 0x0F))"
  from Cons.prems have cov: "unat (drop_bit 4 p) < length pals" and room: "it < length alpha"
    by simp_all
  then have step: "GetAlpha_loop pals lo hi (p # px) pri it alpha =
      GetAlpha_loop pals lo hi px pri' (Suc it) (alpha[it := ?v])"
    by (simp add: pri Let_def)
  from Cons.prems have "\<forall>p\<in>set px. unat (drop_bit 4 p) < length pals"
    and "length px \<le> length pri'" and "Suc it + length px \<le> length (alpha[it := ?v])"
    by (simp_all add: pri)
  from Cons.IH [OF this]
  obtain alpha' where run: "GetAlpha_loop pals lo hi px pri' (Suc it) (alpha[it := ?v]) = Some alpha'"
    and len: "length alpha' = length (alpha[it := ?v])"
    and vals: "\<forall>k<length px. alpha' ! (Suc it + k) =
        min (if pri' ! k \<noteq> 0 then hi else lo)
            (getA (pals ! unat (drop_bit 4 (px ! k))) (px ! k AND 0x0F))"
    and keep: "\<forall>j<Suc it. alpha' ! j = (alpha[it := ?v]) ! j"
    by blast
  have first: "alpha' ! it = ?v"
    using keep room by simp
  have v: "alpha' ! (it + k) =
        min (if pri ! k \<noteq> 0 then hi else lo)
            (getA (pals ! unat (drop_bit 4 ((p # px) ! k))) ((p # px) ! k AND 0x0F))"
    if "k < length (p # px)" for k
  proof (cases k)
    case 0
    with first show ?thesis by (simp add: pri)
  next
    case (Suc k')
    with that have "k' < length px" by simp
    with vals Suc show ?thesis by (simp add: pri)
  qed
  have "\<forall>j<it. alpha' ! j = alpha ! j"
    using keep by simp
  with step run len v show ?case by simp
qed

text \<open>C6, as the code has it: for a palette list that covers every palette row used in
  the buffer, and any two opacity ceilings, \<open>GetAlpha\<close> returns width times height bytes
  (the \<open>size_t\<close> product), one per pixel in raster order; each is the smaller of the
  ceiling (the high-priority one where the priority byte is not zero, the low-priority
  one where it is) and the alpha of colour \<open>p & 0xF\<close> in palette \<open>p >> 4\<close>. So the byte
  of a high-priority pixel never exceeds the high-priority ceiling.\<close>

theorem GetAlpha_bytes:
  assumes sized: "rasters_sized s"
    and covered: "\<forall>p\<in>set (m_pixels s). unat (drop_bit 4 p) < length pals"
  shows "\<exists>alpha s'. GetAlpha pals lo hi s = Some (alpha, s') \<and>
     length alpha = unat (m_width s * m_height s) \<and>
     (\<forall>i<unat (m_width s * m_height s).
        alpha ! i = min (if m_priority s ! i \<noteq> 0 then hi else lo)
                      (getA (pals ! unat (drop_bit 4 (m_pixels s ! i))) (m_pixels s ! i AND 0x0F)) \<and>
        (m_priority s ! i \<noteq> 0 \<longrightarrow> alpha ! i \<le> hi))"
proof -
  let ?n = "unat (m_width s * m_height s)"
  let ?a0 = "resize ?n (m_alpha s)"
  from sized have len: "length (m_pixels s) = ?n" "length (m_priority s) = ?n"
    by (simp_all add: rasters_sized_def)
  then have "length (m_pixels s) \<le> length (m_priority s)"
    and "0 + length (m_pixels s) \<le> length ?a0"
    by simp_all
  from GetAlpha_loop_effect [OF covered this]
  obtain alpha where run: "GetAlpha_loop pals lo hi (m_pixels s) (m_priority s) 0 ?a0 = Some alpha"
    and l: "length alpha = length ?a0"
    and vals: "\<forall>k<length (m_pixels s). alpha ! (0 + k) =
        min (if m_priority s ! k \<noteq> 0 then hi else lo)
            (getA (pals ! unat (drop_bit 4 (m_pixels s ! k))) (m_pixels s ! k AND 0x0F))"
    by blast
  from run have "GetAlpha pals lo hi s = Some (alpha, s\<lparr>m_alpha := alpha\<rparr>)"
    by (simp add: GetAlpha_def)
  moreover from l have "length alpha = ?n" by simp
  moreover from vals have "\<forall>i<?n.
        alpha ! i = min (if m_priority s ! i \<noteq> 0 then hi else lo)
                      (getA (pals ! unat (drop_bit 4 (m_pixels s ! i))) (m_pixels s ! i AND 0x0F)) \<and>
        (m_priority s ! i \<noteq> 0 \<longrightarrow> alpha ! i \<le> hi)"
    by (simp add: len)
  ultimately show ?thesis by blast
qed

theorem GetAlpha_bytes_witness:
  "rasters_sized drawn_buffer \<and>
   (\<exists>alpha s'. GetAlpha [grey_palette, grey_palette, grey_palette] 64 128 drawn_buffer =
        Some (alpha, s') \<and>
     length alpha = unat (m_width drawn_buffer * m_height drawn_buffer) \<and>
     (\<forall>i<unat (m_width drawn_buffer * m_height drawn_buffer).
        alpha ! i = min (if m_priority drawn_buffer ! i \<noteq> 0 then 128 else 64)
                      (getA ([grey_palette, grey_palette, grey_palette] !
                               unat (drop_bit 4 (m_pixels drawn_buffer ! i)))
                            (m_pixels drawn_buffer ! i AND 0x0F)) \<and>
        (m_priority drawn_buffer ! i \<noteq> 0 \<longrightarrow> alpha ! i \<le> 128)))"
proof -
  have h: "rasters_sized drawn_buffer"
    "\<forall>p\<in>set (m_pixels drawn_buffer).
       unat (drop_bit 4 p) < length [grey_palette, grey_palette, grey_palette]"
    by (simp_all add: drawn_buffer_value rasters_sized_def)
  from h(1) GetAlpha_bytes [OF h, of 64 128] show ?thesis
    by blast
qed

subsection \<open>Transparent pixels carry no priority\<close>

lemma nibble_mask: "(0x0F :: uint8_t) = mask 4"
  by (simp add: mask_eq_exp_minus_1)

lemma low_nibble_small: "(b :: uint8_t) \<le> 15 \<Longrightarrow> b AND 0x0F = b"
proof -
  assume "b \<le> 15"
  then have "uint b \<le> 15" by (simp add: word_le_def)
  then have "uint b < 2 ^ 4" by simp
  then have "b AND mask 4 = b" by (simp only: mask_eq_iff)
  then show ?thesis by (simp only: nibble_mask)
qed

lemma low_nibble_shifted: "(push_bit 4 (p :: uint8_t)) AND 0x0F = 0"
proof -
  have "take_bit 4 (push_bit 4 p) = (0 :: uint8_t)"
    by (simp add: take_bit_push_bit)
  then show ?thesis
    by (simp only: nibble_mask take_bit_eq_mask)
qed

lemma written_nibble:
  assumes "(b :: uint8_t) \<le> 15" and "pal_bits AND 0x0F = 0"
  shows "(b OR pal_bits) AND 0x0F = b"
proof -
  have "(b OR pal_bits) AND 0x0F = (b AND 0x0F) OR (pal_bits AND 0x0F)"
    by (rule bit.conj_disj_distrib2)
  with assms show ?thesis by (simp only: low_nibble_small or.right_neutral)
qed

lemma transparent_is_low_write:
  assumes J: "transparent_is_low s" and d: "d < length (m_pixels s)"
    and v: "v AND 0x0F \<noteq> 0"
  shows "transparent_is_low (s\<lparr>m_pixels := (m_pixels s)[d := v],
                               m_priority := (m_priority s)[d := priority]\<rparr>)"
  using assms by (auto simp: transparent_is_low_def nth_list_update)

lemma InsertTile_loop_transparent:
  assumes "i mod 8 \<noteq> 0 \<longrightarrow> dest_it = dest_offset w row_it i \<and> pri_dest_it = dest_offset w row_it i"
    and "four_bit_bitmap bits"
    and "pal_bits AND 0x0F = 0"
    and "transparent_is_low s"
    and "InsertTile_loop w row_it row_it pal_bits priority bits i dest_it pri_dest_it s = Some s'"
  shows "transparent_is_low s'"
  using assms
proof (induction bits arbitrary: i dest_it pri_dest_it s)
  case Nil
  then show ?case by simp
next
  case (Cons b bits)
  let ?d = "unat (dest_offset w row_it i)"
  have inv1: "Suc i mod 8 \<noteq> 0 \<longrightarrow>
      dest_offset w row_it i + 1 = dest_offset w row_it (Suc i) \<and>
      dest_offset w row_it i + 1 = dest_offset w row_it (Suc i)"
    by (simp add: dest_offset_Suc)
  from Cons.prems(2) have small: "b \<le> 15" and rest: "four_bit_bitmap bits"
    by (simp_all add: four_bit_bitmap_def)
  note unfold = InsertTile_loop_Cons [OF Cons.prems(1), of pal_bits priority b bits s]
  show ?case
  proof (cases "b = 0")
    case True
    with Cons.prems(5) unfold
    have "InsertTile_loop w row_it row_it pal_bits priority bits (Suc i)
            (dest_offset w row_it i + 1) (dest_offset w row_it i + 1) s = Some s'"
      by (simp del: InsertTile_loop.simps)
    from Cons.IH [OF inv1 rest Cons.prems(3,4) this] show ?thesis .
  next
    case False
    let ?s1 = "s\<lparr>m_pixels := (m_pixels s)[?d := b OR pal_bits],
                  m_priority := (m_priority s)[?d := priority]\<rparr>"
    from False Cons.prems(5) unfold
    have inr: "?d < length (m_pixels s)"
      and run: "InsertTile_loop w row_it row_it pal_bits priority bits (Suc i)
            (dest_offset w row_it i + 1) (dest_offset w row_it i + 1) ?s1 = Some s'"
      by (simp_all del: InsertTile_loop.simps split: if_splits)
    from small Cons.prems(3) False have "(b OR pal_bits) AND 0x0F \<noteq> 0"
      by (simp only: written_nibble) simp
    with Cons.prems(4) inr have "transparent_is_low ?s1"
      by (intro transparent_is_low_write)
    from Cons.IH [OF inv1 rest Cons.prems(3) this run] show ?thesis .
  qed
qed

lemma InsertTile_transparent:
  assumes "four_bit_bitmap (tileset tile)" and "transparent_is_low s"
    and "InsertTile x y palette_index tile tileset s = Some s'"
  shows "transparent_is_low s'"
proof (cases "m_width s \<le> x + 7 \<or> m_height s \<le> y + 7")
  case True
  with assms(3) have "s' = Debug (TileOutOfRange x y (m_width s) (m_height s)) s"
    by (auto simp: InsertTile_def Let_def)
  with assms(2) show ?thesis
    by (simp add: transparent_is_low_def)
next
  case False
  with assms(3) have "InsertTile_loop (m_width s) (y * m_width s + x) (y * m_width s + x)
      (push_bit 4 palette_index) (attr_priority tile) (tileset tile) 0
      (y * m_width s + x) (y * m_width s + x) s = Some s'"
    by (simp add: InsertTile_def Let_def)
  from InsertTile_loop_transparent [OF _ assms(1) low_nibble_shifted assms(2) this]
  show ?thesis by simp
qed

lemma InsertBlock_transparent:
  assumes "four_bit_bitmap (tileset (getTile block 0))" "four_bit_bitmap (tileset (getTile block 1))"
    "four_bit_bitmap (tileset (getTile block 2))" "four_bit_bitmap (tileset (getTile block 3))"
    and "transparent_is_low s"
    and "InsertBlock x y palette_index block tileset s = Some s'"
  shows "transparent_is_low s'"
proof (cases "(y + 7) * m_width s + x + 7 < of_nat (length (m_pixels s))")
  case False
  with assms(6) have "s' = Debug BlockOutOfRange s"
    by (simp add: InsertBlock_def)
  with assms(5) show ?thesis
    by (simp add: transparent_is_low_def)
next
  case True
  with assms(6) obtain s1 s2 s3 where
    t0: "InsertTile x y palette_index (getTile block 0) tileset s = Some s1" and
    t1: "InsertTile (x + 8) y palette_index (getTile block 1) tileset s1 = Some s2" and
    t2: "InsertTile x (y + 8) palette_index (getTile block 2) tileset s2 = Some s3" and
    t3: "InsertTile (x + 8) (y + 8) palette_index (getTile block 3) tileset s3 = Some s'"
    by (auto simp: InsertBlock_def split: Option.bind_splits)
  from assms(1,5) t0 have "transparent_is_low s1" by (rule InsertTile_transparent)
  with assms(2) have "transparent_is_low s2" using t1 by (rule InsertTile_transparent)
  with assms(3) have "transparent_is_low s3" using t2 by (rule InsertTile_transparent)
  with assms(4) show ?thesis using t3 by (rule InsertTile_transparent)
qed

lemma perform_transparent:
  assumes "four_bit_tiles op" and "transparent_is_low s" and "perform op s = Some s'"
  shows "transparent_is_low s'"
proof (cases op)
  case OpClear
  with assms show ?thesis by (auto simp: Clear_def transparent_is_low_def)
next
  case (OpResize w h)
  with assms show ?thesis by (auto simp: Resize_def transparent_is_low_def)
next
  case (OpInsertTile x y p t ts)
  with assms show ?thesis by (auto intro: InsertTile_transparent)
next
  case (OpInsertBlock x y p t ts)
  with assms show ?thesis by (auto intro: InsertBlock_transparent)
next
  case (OpGetRGB pals)
  with assms show ?thesis by (auto simp: transparent_is_low_def dest: GetRGB_shape)
next
  case (OpGetAlpha pals lo hi)
  with assms show ?thesis by (auto simp: transparent_is_low_def dest: GetAlpha_shape)
next
  case (OpWritePNG outcome filename pals)
  with assms show ?thesis by (auto simp: transparent_is_low_def dest: WritePNG_shape)
qed

lemma perform_all_transparent:
  "list_all four_bit_tiles ops \<Longrightarrow> transparent_is_low s \<Longrightarrow> perform_all ops s = Some s' \<Longrightarrow>
   transparent_is_low s'"
proof (induction ops arbitrary: s)
  case Nil
  then show ?case by simp
next
  case (Cons op ops)
  then show ?case
    by (auto split: Option.bind_splits dest: perform_transparent)
qed

text \<open>C10: start from either constructor and make any sequence of calls in which
  \<open>InsertTile\<close> and \<open>InsertBlock\<close> only meet bitmaps of 4-bit values (\<open>Clear\<close> and \<open>Resize\<close>
  may come at any point, so a cleared buffer is covered; the exports may be mixed in as
  well). If no call has undefined behaviour, then in the buffer reached every position
  whose pixel byte is 0 has priority byte 0, and a position with a priority mark holds a
  pixel whose low nibble is not zero.\<close>

theorem zero_pixel_has_zero_priority:
  assumes "s0 = ImageBuffer_default \<or> s0 = ImageBuffer_sized width height"
    and "list_all four_bit_tiles ops"
    and "perform_all ops s0 = Some s"
  shows "\<forall>i<length (m_pixels s).
           (m_pixels s ! i = 0 \<longrightarrow> m_priority s ! i = 0) \<and>
           (m_priority s ! i \<noteq> 0 \<longrightarrow> m_pixels s ! i AND 0x0F \<noteq> 0)"
proof -
  from assms(1) have "transparent_is_low s0"
    by (auto simp: transparent_is_low_def ImageBuffer_default_def ImageBuffer_sized_def)
  with assms(2) have "transparent_is_low s"
    using assms(3) by (rule perform_all_transparent)
  then show ?thesis
    by (auto simp: transparent_is_low_def)
qed

theorem zero_pixel_has_zero_priority_witness:
  "list_all four_bit_tiles [OpInsertTile 0 0 2 high_tile solid_tileset] \<and>
   perform_all [OpInsertTile 0 0 2 high_tile solid_tileset] (ImageBuffer_sized 8 8) =
     Some \<lparr>m_width = 8, m_height = 8, m_pixels = replicate 64 33,
           m_priority = replicate 64 1, m_rgb = [], m_alpha = [], debug_out = []\<rparr> \<and>
   replicate 64 (1 :: uint8_t) ! 0 \<noteq> 0 \<and>
   replicate 64 (33 :: uint8_t) ! 0 AND 0x0F \<noteq> 0"
proof -
  let ?S = "\<lparr>m_width = 8, m_height = 8, m_pixels = replicate 64 33,
           m_priority = replicate 64 1, m_rgb = [], m_alpha = [], debug_out = []\<rparr>"
  have tiles: "list_all four_bit_tiles [OpInsertTile 0 0 2 high_tile solid_tileset]"
    by code_simp
  have run: "perform_all [OpInsertTile 0 0 2 high_tile solid_tileset] (ImageBuffer_sized 8 8) =
      Some ?S"
    by code_simp
  have "ImageBuffer_sized 8 8 = ImageBuffer_default \<or> ImageBuffer_sized 8 8 = ImageBuffer_sized 8 8"
    by simp
  from zero_pixel_has_zero_priority [OF this tiles run]
  have "m_priority ?S ! 0 \<noteq> 0 \<longrightarrow> m_pixels ?S ! 0 AND 0x0F \<noteq> 0"
    by simp
  with tiles run show ?thesis
    by simp
qed

subsection \<open>Screen to tile and back\<close>

lemma uint_wi_small:
  "0 \<le> a \<Longrightarrow> a < 2 ^ 64 \<Longrightarrow> uint (word_of_int a :: size_t) = a"
  by (simp add: uint_word_of_int take_bit_eq_mod)

lemma wi_div:
  assumes "0 \<le> a" "a < 2 ^ 64" "0 \<le> b" "b < 2 ^ 64"
  shows "(word_of_int a :: size_t) div word_of_int b = word_of_int (a div b)"
proof -
  have "uint ((word_of_int a :: size_t) div word_of_int b) = a div b"
    using assms by (simp only: uint_div uint_wi_small)
  then have "word_of_int (uint ((word_of_int a :: size_t) div word_of_int b)) = (word_of_int (a div b) :: size_t)"
    by (simp only:)
  then show ?thesis by simp
qed

lemma wi_scast:
  assumes "- (2 ^ 31) \<le> k" "k < 2 ^ 31"
  shows "(scast (word_of_int k :: cint) :: size_t) = word_of_int k"
proof -
  have "sint (word_of_int k :: cint) = k"
    using assms by (simp add: sint_sbintrunc' signed_take_bit_int_eq_self)
  then show ?thesis by (simp only: scast_eq)
qed

lemma sint_wi_small:
  assumes "- (2 ^ 31) \<le> k" "k < 2 ^ 31"
  shows "sint (word_of_int k :: cint) = k"
  using assms by (simp add: sint_sbintrunc' signed_take_bit_int_eq_self)

lemma wi_nonzero:
  assumes "0 < a" "a < 2 ^ 64"
  shows "(word_of_int a :: size_t) \<noteq> 0"
proof
  assume z: "(word_of_int a :: size_t) = 0"
  from assms have u: "uint (word_of_int a :: size_t) = a"
    by (simp add: uint_wi_small)
  from z have "uint (word_of_int a :: size_t) = 0" by simp
  with u assms show False by simp
qed

lemma half_step:
  fixes h dy :: int
  assumes "0 < h" "0 \<le> dy" "dy < 2 * h"
  shows "0 \<le> dy div h" and "dy div h \<le> 1"
proof -
  from assms show "0 \<le> dy div h"
    by (simp add: pos_imp_zdiv_nonneg_iff)
  have "h * (dy div h) + dy mod h = dy" by simp
  moreover have "0 \<le> dy mod h" using assms(1) by simp
  ultimately have "h * (dy div h) < h * 2" using assms(3) by linarith
  with assms(1) have "dy div h < 2"
    by (simp only: mult_less_cancel_left_pos)
  then show "dy div h \<le> 1" by simp
qed

lemma grid_quotient:
  fixes k orig c t :: int
  assumes k: "- (2 ^ 31) \<le> k" "k < 2 ^ 31"
    and n: "0 \<le> c * (k - orig)" "c * (k - orig) < 2 ^ 64"
    and t: "0 \<le> t" "t < 2 ^ 64"
  shows "(ucast ((word_of_int c * (scast (word_of_int k :: cint) - word_of_int orig)) div
                 (word_of_int t :: size_t)) :: cint) = word_of_int (c * (k - orig) div t)"
proof -
  have "(scast (word_of_int k :: cint) :: size_t) = word_of_int k"
    using k by (rule wi_scast)
  then have "word_of_int c * (scast (word_of_int k :: cint) - word_of_int orig) =
      (word_of_int (c * (k - orig)) :: size_t)"
    by simp
  moreover have "(word_of_int (c * (k - orig)) :: size_t) div word_of_int t =
      word_of_int (c * (k - orig) div t)"
    using n t by (rule wi_div)
  ultimately show ?thesis
    by (simp only: ucast_wi_down)
qed

lemma tile_quotient:
  fixes k m :: int
  assumes k: "- (2 ^ 31) \<le> k" "k < 2 ^ 31"
    and n: "0 \<le> k + m" "k + m < 2 ^ 64"
  shows "(scast (word_of_int k :: cint) + word_of_int m) div 2 =
         (word_of_int ((k + m) div 2) :: size_t)"
proof -
  have "(scast (word_of_int k :: cint) :: size_t) = word_of_int k"
    using k by (rule wi_scast)
  then have "scast (word_of_int k :: cint) + word_of_int m = (word_of_int (k + m) :: size_t)"
    by simp
  moreover have "(word_of_int (k + m) :: size_t) div word_of_int 2 = word_of_int ((k + m) div 2)"
    using n by (intro wi_div) simp_all
  ultimately show ?thesis
    by simp
qed

lemma XYToTilePoint_wi:
  fixes X Y Hh TW h L T dx dy :: int
  assumes nn: "0 \<le> X" "0 \<le> Y" "Y < Hh" "0 < TW" "0 < h" "0 \<le> L" "0 \<le> T"
    and d: "0 \<le> dx" "dx < TW" "0 \<le> dy" "dy < 2 * h"
    and bx: "(X - Y + Hh) * TW + L \<le> 2 ^ 31"
    and bh: "(X + Y + 2) * h + T \<le> 2 ^ 31"
    and bs: "2 * X + Hh < 2 ^ 31"
    and b: "GetHeight b = word_of_int Hh" "GetLeft b = word_of_int L" "GetTop b = word_of_int T"
      "TILEWIDTH b = word_of_int TW" "TILEHEIGHT b = word_of_int (2 * h)"
  shows "XYToTilePoint b \<lparr>wx_x = word_of_int ((X - Y + Hh - 1) * TW + L + dx),
                           wx_y = word_of_int ((X + Y) * h + T + dy)\<rparr> =
         Some \<lparr>tp_x = word_of_int X, tp_y = word_of_int Y\<rparr>"
proof -
  define XG where "XG = X - Y + Hh - 1"
  define PX where "PX = XG * TW + L + dx"
  define PY where "PY = (X + Y) * h + T + dy"
  define e where "e = dy div h"
  define YG where "YG = X + Y + e"
  have p: "(2 :: int) ^ 31 < 2 ^ 64" "2 * (2 :: int) ^ 31 < 2 ^ 64" by simp_all
  have xg0: "0 \<le> XG" using nn by (simp add: XG_def)
  have "TW \<le> (X - Y + Hh) * TW"
    using nn mult_right_mono [of 1 "X - Y + Hh" TW] by simp
  with bx nn(6) p have tw: "TW < 2 ^ 64" by linarith
  have "2 * h \<le> (X + Y + 2) * h"
    using nn mult_right_mono [of 2 "X + Y + 2" h] by simp
  with bh nn(5,7) have h31: "h < 2 ^ 31" by linarith
  with p have th: "2 * h < 2 ^ 64" by linarith
  have e: "0 \<le> e" "e \<le> 1"
    unfolding e_def using half_step [OF nn(5) d(3,4)] by simp_all
  have xgtw: "0 \<le> XG * TW" using xg0 nn by simp
  have "(X - Y + Hh) * TW = XG * TW + TW" by (simp add: XG_def algebra_simps)
  with bx d nn have px: "0 \<le> PX" "PX < 2 ^ 31"
    using xgtw by (simp_all add: PX_def)
  have xyh: "0 \<le> (X + Y) * h" using nn by simp
  have "(X + Y + 2) * h = (X + Y) * h + 2 * h" by (simp add: algebra_simps)
  with bh d nn have py: "0 \<le> PY" "PY < 2 ^ 31"
    using xyh by (simp_all add: PY_def)
  have "X + Y \<le> (X + Y) * h"
    using nn mult_left_mono [of 1 h "X + Y"] by simp
  with py d nn have xy: "X + Y < 2 ^ 31" by (simp add: PY_def)
  from nn(5) have "0 < 2 * h" by simp
  then have nzh: "(word_of_int (2 * h) :: size_t) \<noteq> 0" using th by (rule wi_nonzero)
  from nn(4) tw have nzw: "(word_of_int TW :: size_t) \<noteq> 0" by (rule wi_nonzero)
  have nz: "TILEWIDTH b \<noteq> 0" "TILEHEIGHT b \<noteq> 0"
    unfolding b using nzw nzh by blast+
  \<comment> \<open>xgrid\<close>
  have "1 * (PX - L) = XG * TW + dx" by (simp add: PX_def)
  moreover have "(XG * TW + dx) div TW = XG" using nn d by simp
  moreover have "XG * TW + dx < 2 ^ 64" using px nn p by (simp add: PX_def)
  ultimately have "(ucast ((word_of_int 1 * (scast (word_of_int PX :: cint) - word_of_int L)) div
                 (word_of_int TW :: size_t)) :: cint) = word_of_int XG"
    using grid_quotient [of PX 1 L TW] px nn d tw xgtw by simp
  then have xgrid: "(ucast ((scast (word_of_int PX :: cint) - GetLeft b) div TILEWIDTH b) :: cint)
      = word_of_int XG"
    by (simp add: b)
  \<comment> \<open>ygrid\<close>
  have "2 * (PY - T) = 2 * ((X + Y) * h + dy)" by (simp add: PY_def)
  moreover have "2 * ((X + Y) * h + dy) div (2 * h) = YG"
  proof -
    have "2 * ((X + Y) * h + dy) div (2 * h) = ((X + Y) * h + dy) div h"
      by (rule div_mult_mult1) simp
    also have "\<dots> = X + Y + dy div h"
      using nn(5) by simp
    finally show ?thesis by (simp only: YG_def e_def)
  qed
  moreover have "2 * ((X + Y) * h + dy) < 2 ^ 64" "0 \<le> 2 * ((X + Y) * h + dy)"
    using py nn p xyh d by (simp_all add: PY_def)
  ultimately have "(ucast ((word_of_int 2 * (scast (word_of_int PY :: cint) - word_of_int T)) div
                 (word_of_int (2 * h) :: size_t)) :: cint) = word_of_int YG"
    using grid_quotient [of PY 2 T "2 * h"] py nn th by simp
  then have ygrid: "(ucast ((2 * (scast (word_of_int PY :: cint) - GetTop b)) div TILEHEIGHT b) :: cint)
      = word_of_int YG"
    by (simp add: b)
  \<comment> \<open>tile\<close>
  have sum: "(word_of_int YG :: cint) + word_of_int XG = word_of_int (YG + XG)"
    and diff: "(word_of_int YG :: cint) - word_of_int XG = word_of_int (YG - XG)"
    by simp_all
  have vs: "YG + XG = 2 * X + Hh - 1 + e" and vd: "YG - XG = 2 * Y - Hh + 1 + e"
    by (simp_all add: YG_def XG_def)
  have rx: "scast w - GetHeight b + 1 = scast w + (word_of_int (1 - Hh) :: size_t)"
    and ry: "scast w + GetHeight b - 1 = scast w + (word_of_int (Hh - 1) :: size_t)" for w :: cint
    by (simp_all add: b)
  have qx: "(scast (word_of_int (YG + XG) :: cint) + word_of_int (1 - Hh)) div 2 =
        (word_of_int ((YG + XG + (1 - Hh)) div 2) :: size_t)"
    using nn e bs p by (intro tile_quotient) (simp_all add: vs)
  have hx: "(YG + XG + (1 - Hh)) div 2 = X"
    using e by (simp add: vs)
  have tx: "(scast ((word_of_int YG :: cint) + word_of_int XG) - GetHeight b + 1) div 2
      = (word_of_int X :: size_t)"
    by (simp only: sum rx qx hx)
  have qy: "(scast (word_of_int (YG - XG) :: cint) + word_of_int (Hh - 1)) div 2 =
        (word_of_int ((YG - XG + (Hh - 1)) div 2) :: size_t)"
    using nn e bs xy p by (intro tile_quotient) (simp_all add: vd)
  have hy: "(YG - XG + (Hh - 1)) div 2 = Y"
    using e by (simp add: vd)
  have ty: "(scast ((word_of_int YG :: cint) - word_of_int XG) + GetHeight b - 1) div 2
      = (word_of_int Y :: size_t)"
    by (simp only: diff ry qy hy)
  have "XYToTilePoint b \<lparr>wx_x = word_of_int PX, wx_y = word_of_int PY\<rparr> =
         Some \<lparr>tp_x = word_of_int X, tp_y = word_of_int Y\<rparr>"
    unfolding XYToTilePoint_def Let_def wxPoint.select_convs xgrid ygrid tx ty
    using nz by simp
  then show ?thesis
    by (simp only: PX_def PY_def XG_def)
qed

lemma ToXYPoint_wi:
  fixes X Y Hh TW h L T :: int
  assumes n: "0 \<le> (X + Y) * (2 * h)" "(X + Y) * (2 * h) < 2 ^ 64"
    and b: "GetHeight b = word_of_int Hh" "GetLeft b = word_of_int L" "GetTop b = word_of_int T"
      "TILEWIDTH b = word_of_int TW" "TILEHEIGHT b = word_of_int (2 * h)"
  shows "ToXYPoint b \<lparr>tp_x = word_of_int X, tp_y = word_of_int Y\<rparr> =
         \<lparr>wx_x = word_of_int ((X - Y + Hh - 1) * TW + L), wx_y = word_of_int ((X + Y) * h + T)\<rparr>"
proof -
  have "(word_of_int X - word_of_int Y + (GetHeight b - 1)) * TILEWIDTH b + GetLeft b =
        (word_of_int ((X - Y + Hh - 1) * TW + L) :: size_t)"
    by (simp add: b algebra_simps)
  then have x: "(ucast ((word_of_int X - word_of_int Y + (GetHeight b - 1)) * TILEWIDTH b + GetLeft b) :: cint) =
        word_of_int ((X - Y + Hh - 1) * TW + L)"
    by (simp only: ucast_wi_down)
  have "(word_of_int X + word_of_int Y) * TILEHEIGHT b = (word_of_int ((X + Y) * (2 * h)) :: size_t)"
    by (simp add: b)
  moreover have "(word_of_int ((X + Y) * (2 * h)) :: size_t) div word_of_int 2 =
      word_of_int ((X + Y) * (2 * h) div 2)"
    using n by (intro wi_div) simp_all
  moreover have "(X + Y) * (2 * h) div 2 = (X + Y) * h"
    by simp
  ultimately have "(word_of_int X + word_of_int Y) * TILEHEIGHT b div 2 + GetTop b =
      (word_of_int ((X + Y) * h + T) :: size_t)"
    by (simp add: b)
  then have y: "(ucast ((word_of_int X + word_of_int Y) * TILEHEIGHT b div 2 + GetTop b) :: cint) =
        word_of_int ((X + Y) * h + T)"
    by (simp only: ucast_wi_down)
  show ?thesis
    unfolding ToXYPoint_def Let_def TilePoint.select_convs x y ..
qed

text \<open>C3: take a map whose tile width is not zero, whose tile height is even and not
  zero, and whose bitmap, placed at \<open>(left, top)\<close>, has pixel coordinates that an \<open>int\<close>
  holds (the third bound keeps the \<open>int\<close> sum \<open>ygrid + xgrid\<close> from overflowing). Then for
  every tile \<open>t\<close> of the grid \<open>XYToTilePoint (ToXYPoint t) = t\<close>, and \<open>XYToTilePoint p = t\<close>
  for every pixel \<open>p\<close> of the screen footprint of \<open>t\<close>. An instance is the tile
  \<open>(3, 4)\<close> on a grid of height 10 with 16 by 16 tiles at \<open>left = top = 0\<close>.\<close>

theorem XYToTilePoint_inverts_ToXYPoint:
  assumes tw: "TILEWIDTH b \<noteq> 0"
    and th: "TILEHEIGHT b \<noteq> 0" "even (uint (TILEHEIGHT b))"
    and grid: "tp_x t < GetWidth b" "tp_y t < GetHeight b"
    and cw: "uint (GetLeft b) + (uint (GetWidth b) + uint (GetHeight b)) * uint (TILEWIDTH b) \<le> 2 ^ 31"
    and ch: "uint (GetTop b) + (uint (GetWidth b) + uint (GetHeight b) + 1) * uint (TILEHEIGHT b) div 2
             \<le> 2 ^ 31"
    and cs: "2 * uint (GetWidth b) + uint (GetHeight b) \<le> 2 ^ 31"
  shows "XYToTilePoint b (ToXYPoint b t) = Some t \<and>
         (\<forall>p. in_footprint b t p \<longrightarrow> XYToTilePoint b p = Some t)"
proof -
  define X Y Wd Hh TW L T h where
    "X = uint (tp_x t)" and "Y = uint (tp_y t)" and "Wd = uint (GetWidth b)" and
    "Hh = uint (GetHeight b)" and "TW = uint (TILEWIDTH b)" and "L = uint (GetLeft b)" and
    "T = uint (GetTop b)" and "h = uint (TILEHEIGHT b) div 2"
  note defs = X_def Y_def Wd_def Hh_def TW_def L_def T_def h_def
  from th(2) have th2: "uint (TILEHEIGHT b) = 2 * h"
    by (simp add: h_def)
  have "(word_of_int (2 * h) :: size_t) = word_of_int (uint (TILEHEIGHT b))"
    by (simp only: th2)
  then have b: "GetHeight b = word_of_int Hh" "GetLeft b = word_of_int L" "GetTop b = word_of_int T"
      "TILEWIDTH b = word_of_int TW" "TILEHEIGHT b = word_of_int (2 * h)"
    by (simp_all add: X_def Y_def Wd_def Hh_def TW_def L_def T_def)
  have t: "t = \<lparr>tp_x = word_of_int X, tp_y = word_of_int Y\<rparr>"
    by (simp add: defs)
  have nn: "0 \<le> X" "0 \<le> Y" "0 \<le> L" "0 \<le> T" "0 \<le> Wd"
    by (simp_all add: defs)
  from grid have lt: "X < Wd" "Y < Hh"
    by (simp_all add: defs word_less_def)
  from tw have "uint (TILEWIDTH b) \<noteq> 0" by (simp add: uint_0_iff)
  then have twp: "0 < TW" by (simp add: TW_def order_less_le)
  from th(1) have "uint (TILEHEIGHT b) \<noteq> 0" by (simp add: uint_0_iff)
  with th2 have "h \<noteq> 0" by simp
  moreover have "0 \<le> h" by (simp add: h_def)
  ultimately have hp: "0 < h" by simp
  have bx: "(X - Y + Hh) * TW + L \<le> 2 ^ 31"
  proof -
    have "(X - Y + Hh) * TW \<le> (Wd + Hh) * TW"
      using nn lt twp by (intro mult_right_mono) simp_all
    with cw show ?thesis by (simp add: defs)
  qed
  have bh: "(X + Y + 2) * h + T \<le> 2 ^ 31"
  proof -
    have "(X + Y + 2) * h \<le> (Wd + Hh + 1) * h"
      using nn lt hp by (intro mult_right_mono) simp_all
    moreover have "(Wd + Hh + 1) * uint (TILEHEIGHT b) div 2 = (Wd + Hh + 1) * h"
      by (simp add: th2)
    ultimately show ?thesis using ch by (simp add: defs)
  qed
  have bs: "2 * X + Hh < 2 ^ 31"
    using cs lt by (simp add: defs)
  have n: "0 \<le> (X + Y) * (2 * h)" "(X + Y) * (2 * h) < 2 ^ 64"
  proof -
    show "0 \<le> (X + Y) * (2 * h)" using nn hp by simp
    have "(X + Y) * h \<le> (X + Y + 2) * h"
      using nn hp by (intro mult_right_mono) simp_all
    with bh nn have "(X + Y) * h \<le> 2 ^ 31" by linarith
    moreover have "2 * (2 :: int) ^ 31 < 2 ^ 64" by simp
    moreover have "(X + Y) * (2 * h) = 2 * ((X + Y) * h)" by simp
    ultimately show "(X + Y) * (2 * h) < 2 ^ 64" by linarith
  qed
  note inv = XYToTilePoint_wi [OF nn(1,2) lt(2) twp hp nn(3,4) _ _ _ _ bx bh bs b]
  have orig: "ToXYPoint b t =
      \<lparr>wx_x = word_of_int ((X - Y + Hh - 1) * TW + L), wx_y = word_of_int ((X + Y) * h + T)\<rparr>"
    unfolding t using n b by (rule ToXYPoint_wi)
  have ox: "0 \<le> (X - Y + Hh - 1) * TW + L" "(X - Y + Hh - 1) * TW + L < 2 ^ 31"
  proof -
    show "0 \<le> (X - Y + Hh - 1) * TW + L" using nn lt twp by simp
    have "(X - Y + Hh) * TW = (X - Y + Hh - 1) * TW + TW" by (simp add: algebra_simps)
    with bx twp show "(X - Y + Hh - 1) * TW + L < 2 ^ 31" by simp
  qed
  have oy: "0 \<le> (X + Y) * h + T" "(X + Y) * h + T < 2 ^ 31"
  proof -
    show "0 \<le> (X + Y) * h + T" using nn hp by simp
    have "(X + Y + 2) * h = (X + Y) * h + 2 * h" by (simp add: algebra_simps)
    with bh hp show "(X + Y) * h + T < 2 ^ 31" by simp
  qed
  have sx: "sint (wx_x (ToXYPoint b t)) = (X - Y + Hh - 1) * TW + L"
    unfolding orig wxPoint.select_convs using ox by (intro sint_wi_small) simp_all
  have sy: "sint (wx_y (ToXYPoint b t)) = (X + Y) * h + T"
    unfolding orig wxPoint.select_convs using oy by (intro sint_wi_small) simp_all
  have at: "XYToTilePoint b p = Some t" if "in_footprint b t p" for p
  proof -
    define dx dy where "dx = sint (wx_x p) - ((X - Y + Hh - 1) * TW + L)"
      and "dy = sint (wx_y p) - ((X + Y) * h + T)"
    from that have d: "0 \<le> dx" "dx < TW" "0 \<le> dy" "dy < 2 * h"
      by (simp_all add: in_footprint_def sx sy dx_def dy_def TW_def th2)
    have "wx_x p = word_of_int (sint (wx_x p))" "wx_y p = word_of_int (sint (wx_y p))"
      by simp_all
    then have "p = \<lparr>wx_x = word_of_int ((X - Y + Hh - 1) * TW + L + dx),
                    wx_y = word_of_int ((X + Y) * h + T + dy)\<rparr>"
      by (simp add: dx_def dy_def)
    with inv [OF d] show ?thesis
      by (simp only: t)
  qed
  moreover have "in_footprint b t (ToXYPoint b t)"
    using twp hp by (simp add: in_footprint_def TW_def th2)
  ultimately show ?thesis by blast
qed

theorem XYToTilePoint_inverts_ToXYPoint_witness:
  "TILEWIDTH grid_10 \<noteq> 0 \<and> TILEHEIGHT grid_10 \<noteq> 0 \<and> even (uint (TILEHEIGHT grid_10)) \<and>
   tp_x tile_3_4 < GetWidth grid_10 \<and> tp_y tile_3_4 < GetHeight grid_10 \<and>
   uint (GetLeft grid_10) + (uint (GetWidth grid_10) + uint (GetHeight grid_10)) *
     uint (TILEWIDTH grid_10) \<le> 2 ^ 31 \<and>
   uint (GetTop grid_10) + (uint (GetWidth grid_10) + uint (GetHeight grid_10) + 1) *
     uint (TILEHEIGHT grid_10) div 2 \<le> 2 ^ 31 \<and>
   2 * uint (GetWidth grid_10) + uint (GetHeight grid_10) \<le> 2 ^ 31 \<and>
   ToXYPoint grid_10 tile_3_4 = \<lparr>wx_x = 128, wx_y = 56\<rparr> \<and>
   XYToTilePoint grid_10 (ToXYPoint grid_10 tile_3_4) = Some tile_3_4 \<and>
   in_footprint grid_10 tile_3_4 \<lparr>wx_x = 135, wx_y = 67\<rparr> \<and>
   XYToTilePoint grid_10 \<lparr>wx_x = 135, wx_y = 67\<rparr> = Some tile_3_4"
proof -
  have h: "TILEWIDTH grid_10 \<noteq> 0" "TILEHEIGHT grid_10 \<noteq> 0" "even (uint (TILEHEIGHT grid_10))"
    "tp_x tile_3_4 < GetWidth grid_10" "tp_y tile_3_4 < GetHeight grid_10"
    "uint (GetLeft grid_10) + (uint (GetWidth grid_10) + uint (GetHeight grid_10)) *
       uint (TILEWIDTH grid_10) \<le> 2 ^ 31"
    "uint (GetTop grid_10) + (uint (GetWidth grid_10) + uint (GetHeight grid_10) + 1) *
       uint (TILEHEIGHT grid_10) div 2 \<le> 2 ^ 31"
    "2 * uint (GetWidth grid_10) + uint (GetHeight grid_10) \<le> 2 ^ 31"
    by (simp_all add: grid_10_def tile_3_4_def)
  have o: "ToXYPoint grid_10 tile_3_4 = \<lparr>wx_x = 128, wx_y = 56\<rparr>"
    by (simp add: ToXYPoint_def grid_10_def tile_3_4_def)
  have f: "in_footprint grid_10 tile_3_4 \<lparr>wx_x = 135, wx_y = 67\<rparr>"
    by (simp add: in_footprint_def o) (simp add: grid_10_def)
  from XYToTilePoint_inverts_ToXYPoint [OF h] h o f show ?thesis
    by blast
qed

end
